(* ===== verification/Prelude.thy ===== *)
theory Prelude
  imports Main "HOL-Library.Word" "HOL-Library.Sublist"
begin

text \<open>
  The parts of the Rust standard library that \<^verbatim>\<open>src/src/*.rs\<close> uses, and the generic lemmas the
  component theories share.

  A Rust \<open>String\<close>, \<open>&str\<close>, \<open>&[u8]\<close> or \<open>OsString\<close> is a \<^typ>\<open>string\<close>, that is, its list of bytes
  (a HOL \<^typ>\<open>char\<close> is an 8-bit value). UTF-8 is self-synchronising, so the searching functions of
  \<open>str\<close> agree with the same search on the bytes. \<open>u64\<close> and \<open>usize\<close> are \<^typ>\<open>64 word\<close> where their width
  matters and \<^typ>\<open>nat\<close> where a value is the length of something that exists.

  Contents: the search, split and trim functions of \<open>str\<close>; UTF-8 decoding with replacement
  (\<open>String::from_utf8_lossy\<close>); number parsing and formatting; \<open>u64\<close> arithmetic as a debug and as a
  release build performs it; and the lemma collections \<open>rust_str\<close> and \<open>io_simps\<close>.
\<close>

named_theorems rust_str \<open>characterisations of the string functions of the Rust standard library\<close>
named_theorems io_simps \<open>unfolding rules for fallible, state-passing operations\<close>

type_synonym u64 = "64 word"

section \<open>Searching and splitting strings\<close>

text \<open>\<open>str::starts_with\<close>, \<open>str::ends_with\<close> and \<open>str::contains\<close> with a string pattern.\<close>

definition starts_with :: "string \<Rightarrow> string \<Rightarrow> bool" where
  "starts_with s p \<longleftrightarrow> take (length p) s = p"

definition ends_with :: "string \<Rightarrow> string \<Rightarrow> bool" where
  "ends_with s p \<longleftrightarrow> length p \<le> length s \<and> drop (length s - length p) s = p"

fun contains :: "string \<Rightarrow> string \<Rightarrow> bool" where
  "contains [] p = (p = [])"
| "contains (c # s) p = (starts_with (c # s) p \<or> contains s p)"

text \<open>\<open>str::find\<close>: the byte offset of the first occurrence.\<close>

fun str_find :: "string \<Rightarrow> string \<Rightarrow> nat option" where
  "str_find [] p = (if p = [] then Some 0 else None)"
| "str_find (c # s) p = (if starts_with (c # s) p then Some 0 else map_option Suc (str_find s p))"

definition strip_prefix :: "string \<Rightarrow> string \<Rightarrow> string option" where
  "strip_prefix s p = (if starts_with s p then Some (drop (length p) s) else None)"

definition strip_suffix :: "string \<Rightarrow> string \<Rightarrow> string option" where
  "strip_suffix s p = (if ends_with s p then Some (take (length s - length p) s) else None)"

definition trim_start_matches :: "string \<Rightarrow> char \<Rightarrow> string" where
  "trim_start_matches s c = dropWhile (\<lambda>x. x = c) s"

definition trim_end_matches :: "string \<Rightarrow> char \<Rightarrow> string" where
  "trim_end_matches s c = rev (dropWhile (\<lambda>x. x = c) (rev s))"

text \<open>\<open>str::split(c)\<close>: always at least one piece, and empty pieces between adjacent separators.\<close>

fun split_on :: "char \<Rightarrow> string \<Rightarrow> string list" where
  "split_on d [] = [[]]"
| "split_on d (c # s) =
     (if c = d then [] # split_on d s
      else (case split_on d s of [] \<Rightarrow> [[c]] | h # t \<Rightarrow> (c # h) # t))"

text \<open>\<open>[_]::join\<close> with a one-byte separator.\<close>

fun join_with :: "char \<Rightarrow> string list \<Rightarrow> string" where
  "join_with d [] = []"
| "join_with d [x] = x"
| "join_with d (x # y # ys) = x @ d # join_with d (y # ys)"

text \<open>\<open>str::lines\<close>: pieces between line feeds, without a trailing carriage return; a final line feed
  does not start another line.\<close>

definition strip_cr :: "string \<Rightarrow> string" where
  "strip_cr l = (case strip_suffix l [CHR 0x0D] of Some l' \<Rightarrow> l' | None \<Rightarrow> l)"

fun drop_last_empty :: "string list \<Rightarrow> string list" where
  "drop_last_empty [] = []"
| "drop_last_empty [x] = (if x = [] then [] else [x])"
| "drop_last_empty (x # y # ys) = x # drop_last_empty (y # ys)"

text \<open>Each piece that was ended by a line feed loses its carriage return; the last piece, when it is
  not empty, was not ended by one and keeps it.\<close>

fun strip_line_ends :: "string list \<Rightarrow> string list" where
  "strip_line_ends [] = []"
| "strip_line_ends [x] = [x]"
| "strip_line_ends (x # y # ys) = strip_cr x # strip_line_ends (y # ys)"

definition str_lines :: "string \<Rightarrow> string list" where
  "str_lines s = drop_last_empty (strip_line_ends (split_on (CHR 0x0A) s))"

subsection \<open>Lemmas\<close>

lemma starts_with_iff [rust_str]: "starts_with s p \<longleftrightarrow> (\<exists>r. s = p @ r)"
  unfolding starts_with_def by (metis append_eq_conv_conj append_take_drop_id)

lemma starts_with_prefix [rust_str]: "starts_with s p \<longleftrightarrow> prefix p s"
  by (auto simp: starts_with_iff prefix_def)

lemma ends_with_iff [rust_str]: "ends_with s p \<longleftrightarrow> (\<exists>r. s = r @ p)"
proof
  assume "ends_with s p"
  then have "s = take (length s - length p) s @ p"
    by (metis append_take_drop_id ends_with_def)
  then show "\<exists>r. s = r @ p" ..
next
  assume "\<exists>r. s = r @ p"
  then show "ends_with s p" by (auto simp: ends_with_def)
qed

lemma contains_iff [rust_str]: "contains s p \<longleftrightarrow> (\<exists>a b. s = a @ p @ b)"
proof (induction s)
  case Nil
  then show ?case by auto
next
  case (Cons c s)
  show ?case (is "?L \<longleftrightarrow> ?R")
  proof
    assume ?L
    then consider "starts_with (c # s) p" | "contains s p" by auto
    then show ?R
    proof cases
      case 1
      then show ?thesis unfolding starts_with_iff by (metis append_Nil)
    next
      case 2
      then show ?thesis using Cons.IH by (metis append_Cons)
    qed
  next
    assume ?R
    then obtain a b where ab: "c # s = a @ p @ b" by blast
    show ?L
    proof (cases a)
      case Nil
      then have "starts_with (c # s) p" using ab by (simp add: starts_with_iff)
      then show ?thesis by simp
    next
      case (Cons x xs)
      then have "s = xs @ p @ b" using ab by simp
      then show ?thesis using Cons.IH by auto
    qed
  qed
qed

lemma contains_append_right: "contains s p \<Longrightarrow> contains (s @ t) p"
  unfolding contains_iff by (metis append.assoc)

lemma contains_append_left: "contains t p \<Longrightarrow> contains (s @ t) p"
  unfolding contains_iff by (metis append.assoc)

lemma contains_trans: "contains s p \<Longrightarrow> contains p q \<Longrightarrow> contains s q"
  unfolding contains_iff by (metis append.assoc)

lemma contains_self [simp]: "contains s s"
  unfolding contains_iff by (metis append_Nil append_Nil2)

lemma ends_with_contains: "ends_with s p \<Longrightarrow> contains s p"
  unfolding ends_with_iff contains_iff by (metis append_Nil2)

lemma strip_prefix_Some_iff [rust_str]: "strip_prefix s p = Some r \<longleftrightarrow> s = p @ r"
  by (auto simp: strip_prefix_def starts_with_iff)

lemma strip_suffix_Some_iff [rust_str]: "strip_suffix s p = Some r \<longleftrightarrow> s = r @ p"
  by (auto simp: strip_suffix_def ends_with_iff)

lemma str_find_Some:
  "str_find s p = Some i \<Longrightarrow> i + length p \<le> length s \<and> s = take i s @ p @ drop (i + length p) s"
proof (induction s arbitrary: i)
  case Nil
  then show ?case by (auto split: if_splits)
next
  case (Cons c s)
  show ?case
  proof (cases "starts_with (c # s) p")
    case True
    then have "length p \<le> length (c # s)" by (metis starts_with_prefix prefix_length_le)
    then show ?thesis using True Cons.prems by (auto simp: starts_with_iff)
  next
    case False
    then obtain j where "str_find s p = Some j" "i = Suc j"
      using Cons.prems by auto
    then show ?thesis using Cons.IH[of j] by simp
  qed
qed

lemma str_find_None: "str_find s p = None \<longleftrightarrow> \<not> contains s p"
  by (induction s) auto

lemma str_find_first:
  "str_find s p = Some i \<Longrightarrow> j < i \<Longrightarrow> \<not> starts_with (drop j s) p"
proof (induction s arbitrary: i j)
  case Nil
  then show ?case by (auto split: if_splits)
next
  case (Cons c s)
  then show ?case by (cases j) (auto split: if_splits)
qed

lemma split_on_not_Nil [simp]: "split_on d s \<noteq> []"
  by (induction s) (auto split: list.splits)

lemma join_with_Cons: "xs \<noteq> [] \<Longrightarrow> join_with d (x # xs) = x @ d # join_with d xs"
  by (cases xs) auto

lemma join_split [simp]: "join_with d (split_on d s) = s"
proof (induction s)
  case Nil
  then show ?case by simp
next
  case (Cons c s)
  obtain h t where ht: "split_on d s = h # t"
    by (cases "split_on d s") auto
  show ?case
  proof (cases "c = d")
    case True
    then show ?thesis using Cons.IH ht by (simp add: join_with_Cons)
  next
    case False
    then show ?thesis using Cons.IH ht by (cases t) auto
  qed
qed

lemma split_on_no_sep: "d \<notin> set s \<Longrightarrow> split_on d s = [s]"
  by (induction s) auto

lemma split_on_append_sep: "d \<notin> set x \<Longrightarrow> split_on d (x @ d # s) = x # split_on d s"
  by (induction x) auto

lemma split_join: "xs \<noteq> [] \<Longrightarrow> \<forall>x\<in>set xs. d \<notin> set x \<Longrightarrow> split_on d (join_with d xs) = xs"
proof (induction xs rule: join_with.induct)
  case (3 d x y ys)
  then show ?case by (simp add: split_on_append_sep)
qed (auto simp: split_on_no_sep)

lemma split_on_inject: "split_on d s = split_on d t \<longleftrightarrow> s = t"
  by (metis join_split)

lemma split_on_set: "x \<in> set (split_on d s) \<Longrightarrow> d \<notin> set x"
proof (induction s arbitrary: x)
  case Nil
  then show ?case by simp
next
  case (Cons c s)
  obtain h t where "split_on d s = h # t" by (cases "split_on d s") auto
  then show ?case using Cons by (auto split: if_splits)
qed

lemma split_on_contains: "x \<in> set (split_on d s) \<Longrightarrow> contains s x"
proof (induction s arbitrary: x rule: split_on.induct)
  case (1 d)
  then show ?case by simp
next
  case (2 d c s)
  obtain h t where ht: "split_on d s = h # t" by (cases "split_on d s") auto
  have h: "\<exists>r. s = h @ r"
    using join_split[of d s] ht by (cases t) auto
  show ?case
  proof (cases "c = d")
    case True
    then show ?thesis using 2 ht
      by (metis contains.simps(2) contains_iff append_Nil set_ConsD split_on.simps(2))
  next
    case False
    then consider "x = c # h" | "x \<in> set t" using 2 ht by auto
    then show ?thesis
    proof cases
      case 1
      then show ?thesis using h by (auto simp: starts_with_iff)
    next
      case 2
      then show ?thesis using "2.IH"(2)[OF False] ht by simp
    qed
  qed
qed

lemma contains_single_iff: "contains s [c] \<longleftrightarrow> c \<in> set s"
  by (auto simp: contains_iff in_set_conv_decomp)

section \<open>ASCII case, white space and trimming\<close>

definition is_ascii_upper :: "char \<Rightarrow> bool" where
  "is_ascii_upper c \<longleftrightarrow> 65 \<le> (of_char c :: nat) \<and> (of_char c :: nat) \<le> 90"

definition is_ascii_digit :: "char \<Rightarrow> bool" where
  "is_ascii_digit c \<longleftrightarrow> 48 \<le> (of_char c :: nat) \<and> (of_char c :: nat) \<le> 57"

definition is_ascii :: "char \<Rightarrow> bool" where
  "is_ascii c \<longleftrightarrow> (of_char c :: nat) < 128"

definition to_ascii_lower_char :: "char \<Rightarrow> char" where
  "to_ascii_lower_char c = (if is_ascii_upper c then char_of ((of_char c :: nat) + 32) else c)"

definition to_ascii_lowercase :: "string \<Rightarrow> string" where
  "to_ascii_lowercase s = map to_ascii_lower_char s"

definition eq_ignore_ascii_case :: "string \<Rightarrow> string \<Rightarrow> bool" where
  "eq_ignore_ascii_case s t \<longleftrightarrow> to_ascii_lowercase s = to_ascii_lowercase t"

text \<open>
  \<open>char::is_whitespace\<close> as the UTF-8 encodings of the code points with the Unicode property
  \<open>White_Space\<close>, which is what \<open>str::trim\<close>, \<open>str::trim_start\<close> and \<open>str::trim_end\<close> remove.
\<close>

definition whitespace_chars :: "string list" where
  "whitespace_chars =
     map (\<lambda>n. [char_of (n :: nat)]) [9, 10, 11, 12, 13, 32] @
     map (map char_of)
       ([[0xC2, 0x85], [0xC2, 0xA0], [0xE1, 0x9A, 0x80]] @
        map (\<lambda>n. [0xE2, 0x80, n]) [0x80, 0x81, 0x82, 0x83, 0x84, 0x85, 0x86, 0x87, 0x88, 0x89, 0x8A,
          0xA8, 0xA9, 0xAF] @
        [[0xE2, 0x81, 0x9F], [0xE3, 0x80, (0x80 :: nat)]])"

fun strip_first_of :: "string list \<Rightarrow> string \<Rightarrow> string option" where
  "strip_first_of [] s = None"
| "strip_first_of (p # ps) s =
     (if p \<noteq> [] \<and> starts_with s p then Some (drop (length p) s) else strip_first_of ps s)"

lemma strip_first_of_shorter: "strip_first_of ps s = Some r \<Longrightarrow> length r < length s"
  by (induction ps) (auto simp: starts_with_iff split: if_splits)

function trim_tokens :: "string list \<Rightarrow> string \<Rightarrow> string" where
  "trim_tokens ps s = (case strip_first_of ps s of Some r \<Rightarrow> trim_tokens ps r | None \<Rightarrow> s)"
  by pat_completeness auto
termination
  by (relation "measure (\<lambda>(ps, s). length s)") (auto dest: strip_first_of_shorter)

declare trim_tokens.simps [simp del]

definition str_trim_start :: "string \<Rightarrow> string" where
  "str_trim_start s = trim_tokens whitespace_chars s"

definition str_trim_end :: "string \<Rightarrow> string" where
  "str_trim_end s = rev (trim_tokens (map rev whitespace_chars) (rev s))"

definition str_trim :: "string \<Rightarrow> string" where
  "str_trim s = str_trim_end (str_trim_start s)"

lemma trim_tokens_suffix: "\<exists>a. s = a @ trim_tokens ps s"
proof (induction ps s rule: trim_tokens.induct)
  case (1 ps s)
  have drop_suffix: "\<exists>a. s = a @ r" if "strip_first_of qs s = Some r" for qs r
    using that by (induction qs) (auto simp: starts_with_iff split: if_splits)
  show ?case
  proof (cases "strip_first_of ps s")
    case None
    then show ?thesis by (simp add: trim_tokens.simps[of ps s])
  next
    case (Some r)
    then obtain a b where "s = a @ r" "r = b @ trim_tokens ps r"
      using "1.IH" drop_suffix by blast
    then show ?thesis using Some by (metis append.assoc option.simps(5) trim_tokens.simps)
  qed
qed

lemma trim_tokens_done: "strip_first_of ps (trim_tokens ps s) = None"
proof (induction ps s rule: trim_tokens.induct)
  case (1 ps s)
  then show ?case
    by (cases "strip_first_of ps s") (simp_all add: trim_tokens.simps[of ps s])
qed

lemma length_to_ascii_lowercase [simp]: "length (to_ascii_lowercase s) = length s"
  by (simp add: to_ascii_lowercase_def)

lemma to_ascii_lowercase_append:
  "to_ascii_lowercase (s @ t) = to_ascii_lowercase s @ to_ascii_lowercase t"
  by (simp add: to_ascii_lowercase_def)

section \<open>UTF-8\<close>

text \<open>
  One step of the decoder behind \<open>str::from_utf8\<close> and \<open>String::from_utf8_lossy\<close>: whether the sequence
  that starts with the given byte is well formed, and how many further bytes it (or, when it is not
  well formed, its longest well-formed beginning) takes.
\<close>

definition in_range :: "nat \<Rightarrow> nat \<Rightarrow> char \<Rightarrow> bool" where
  "in_range lo hi c \<longleftrightarrow> lo \<le> (of_char c :: nat) \<and> (of_char c :: nat) \<le> hi"

abbreviation utf8_cont :: "char \<Rightarrow> bool" where
  "utf8_cont \<equiv> in_range 0x80 0xBF"

definition utf8_second :: "char \<Rightarrow> char \<Rightarrow> bool" where
  "utf8_second b c =
     (if of_char b = (0xE0 :: nat) then in_range 0xA0 0xBF c
      else if of_char b = (0xED :: nat) then in_range 0x80 0x9F c
      else if of_char b = (0xF0 :: nat) then in_range 0x90 0xBF c
      else if of_char b = (0xF4 :: nat) then in_range 0x80 0x8F c
      else utf8_cont c)"

definition utf8_width :: "char \<Rightarrow> nat" where
  "utf8_width b =
     (if is_ascii b then 1 else if in_range 0xC2 0xDF b then 2
      else if in_range 0xE0 0xEF b then 3 else if in_range 0xF0 0xF4 b then 4 else 0)"

fun utf8_step :: "char \<Rightarrow> string \<Rightarrow> bool \<times> nat" where
  "utf8_step b s =
     (if utf8_width b = 0 then (False, 0)
      else if utf8_width b = 1 then (True, 0)
      else (case s of
              c # s' \<Rightarrow>
                if \<not> utf8_second b c then (False, 0)
                else if utf8_width b = 2 then (True, 1)
                else (case s' of
                        d # s'' \<Rightarrow>
                          if \<not> utf8_cont d then (False, 1)
                          else if utf8_width b = 3 then (True, 2)
                          else (case s'' of
                                  e # _ \<Rightarrow> if utf8_cont e then (True, 3) else (False, 2)
                                | [] \<Rightarrow> (False, 2))
                      | [] \<Rightarrow> (False, 1))
            | [] \<Rightarrow> (False, 0)))"

definition replacement_char :: string where
  "replacement_char = [char_of (0xEF :: nat), char_of (0xBF :: nat), char_of (0xBD :: nat)]"

function from_utf8_lossy :: "string \<Rightarrow> string" where
  "from_utf8_lossy [] = []"
| "from_utf8_lossy (b # s) =
     (case utf8_step b s of
        (ok, n) \<Rightarrow> (if ok then b # take n s else replacement_char) @ from_utf8_lossy (drop n s))"
  by pat_completeness auto
termination
  by (relation "measure length") auto

text \<open>\<open>str::from_utf8\<close>: the bytes themselves when all of them are well formed.\<close>

function utf8_valid :: "string \<Rightarrow> bool" where
  "utf8_valid [] = True"
| "utf8_valid (b # s) = (case utf8_step b s of (ok, n) \<Rightarrow> ok \<and> utf8_valid (drop n s))"
  by pat_completeness auto
termination
  by (relation "measure length") auto

definition from_utf8 :: "string \<Rightarrow> string option" where
  "from_utf8 s = (if utf8_valid s then Some s else None)"

lemma utf8_step_ascii: "is_ascii b \<Longrightarrow> utf8_step b s = (True, 0)"
  by (simp add: utf8_width_def)

lemma from_utf8_lossy_ascii: "\<forall>c\<in>set s. is_ascii c \<Longrightarrow> from_utf8_lossy s = s"
  by (induction s) (simp_all add: utf8_step_ascii del: utf8_step.simps)

lemma utf8_valid_ascii: "\<forall>c\<in>set s. is_ascii c \<Longrightarrow> utf8_valid s"
  by (induction s) (simp_all add: utf8_step_ascii del: utf8_step.simps)

declare utf8_step.simps [simp del]

text \<open>The bytes one step takes after the first are never ASCII, so lossy decoding keeps every run of ASCII
  bytes.\<close>

lemma utf8_step_bounds:
  assumes "utf8_step b s = (ok, n)"
  shows "n \<le> length s \<and> (\<forall>c\<in>set (take n s). \<not> is_ascii c)"
proof -
  have cont: "\<not> is_ascii c" if "utf8_cont c" for c using that by (simp add: is_ascii_def in_range_def)
  have second: "\<not> is_ascii c" if "utf8_second b c" for b c
    using that by (auto simp: utf8_second_def in_range_def is_ascii_def split: if_splits)
  show ?thesis
    using assms by (auto simp: utf8_step.simps cont second split: if_splits list.splits)
qed

lemma from_utf8_lossy_ascii_append:
  "\<forall>c\<in>set s. is_ascii c \<Longrightarrow> from_utf8_lossy (s @ t) = s @ from_utf8_lossy t"
  by (induction s) (simp_all add: utf8_step_ascii)

lemma from_utf8_lossy_contains_ascii:
  assumes "\<forall>c\<in>set m. is_ascii c" "m \<noteq> []" "contains s m"
  shows "contains (from_utf8_lossy s) m"
proof -
  obtain a b where s: "s = a @ m @ b" using assms(3) unfolding contains_iff by blast
  have "contains (from_utf8_lossy (a @ m @ b)) m"
  proof (induction "length a" arbitrary: a rule: less_induct)
    case less
    show ?case
    proof (cases a)
      case Nil
      then show ?thesis
        using assms(1) by (simp add: from_utf8_lossy_ascii_append contains_append_right)
    next
      case (Cons x a')
      obtain ok n where st: "utf8_step x (a' @ m @ b) = (ok, n)" by force
      have "n \<le> length a'"
      proof (rule ccontr)
        assume "\<not> n \<le> length a'"
        then have "hd m \<in> set (take n (a' @ m @ b))" using assms(2) by (cases m; cases "n - length a'") auto
        moreover have "is_ascii (hd m)" using assms(1,2) by simp
        ultimately show False using utf8_step_bounds[OF st] by blast
      qed
      then have "drop n (a' @ m @ b) = drop n a' @ m @ b" by simp
      moreover have "contains (from_utf8_lossy (drop n a' @ m @ b)) m"
        using less[of "drop n a'"] Cons by simp
      ultimately show ?thesis using Cons st by (simp add: contains_append_left)
    qed
  qed
  then show ?thesis using s by simp
qed

text \<open>Valid text decodes to itself, and so do the parts an ASCII separator splits it into.\<close>

lemma from_utf8_lossy_valid: "utf8_valid s \<Longrightarrow> from_utf8_lossy s = s"
proof (induction s rule: from_utf8_lossy.induct)
  case (2 b s)
  then show ?case by (cases "utf8_step b s") auto
qed simp

lemma utf8_step_shorten:
  assumes "utf8_step x (a @ t) = (True, n)" "n \<le> length a"
  shows "utf8_step x a = (True, n)"
proof (cases a)
  case Nil
  then show ?thesis using assms by (simp add: utf8_step.simps split: if_splits list.splits)
next
  case (Cons c a1)
  show ?thesis
  proof (cases a1)
    case Nil
    then show ?thesis using assms Cons by (simp add: utf8_step.simps split: if_splits list.splits)
  next
    case a1: (Cons d a2)
    then show ?thesis
      using assms Cons by (cases a2) (simp_all add: utf8_step.simps split: if_splits list.splits)
  qed
qed

lemma utf8_valid_split:
  assumes "is_ascii c" "utf8_valid (a @ c # b)"
  shows "utf8_valid a \<and> utf8_valid b"
  using assms(2)
proof (induction "length a" arbitrary: a rule: less_induct)
  case less
  show ?case
  proof (cases a)
    case Nil
    then show ?thesis using less.prems assms(1) by (simp add: utf8_step_ascii)
  next
    case (Cons x a')
    obtain ok n where st: "utf8_step x (a' @ c # b) = (ok, n)" by force
    have valid: "ok" "utf8_valid (drop n (a' @ c # b))" using less.prems Cons st by auto
    have n: "n \<le> length a'"
    proof (rule ccontr)
      assume "\<not> n \<le> length a'"
      then have "c \<in> set (take n (a' @ c # b))" by (cases "n - length a'") auto
      then show False using utf8_step_bounds[OF st] assms(1) by blast
    qed
    then have "utf8_valid (drop n a') \<and> utf8_valid b"
      using less.hyps[of "drop n a'"] Cons valid(2) by simp
    moreover have "utf8_step x a' = (True, n)" using utf8_step_shorten[of x a' "c # b" n] st n valid(1) by simp
    ultimately show ?thesis using Cons by simp
  qed
qed

lemma utf8_valid_split_on:
  assumes "is_ascii d" "utf8_valid s" "x \<in> set (split_on d s)"
  shows "utf8_valid x"
  using assms(2,3)
proof (induction "length s" arbitrary: s rule: less_induct)
  case less
  show ?case
  proof (cases "d \<in> set s")
    case True
    then obtain a b where ab: "s = a @ d # b" "d \<notin> set a" by (meson split_list_first)
    then have "x = a \<or> x \<in> set (split_on d b)" using less.prems(2) by (simp add: split_on_append_sep)
    moreover have "utf8_valid a" "utf8_valid b"
      using utf8_valid_split[OF assms(1)] less.prems(1) ab(1) by blast+
    moreover have "length b < length s" using ab(1) by simp
    ultimately show ?thesis using less.hyps[of b] by blast
  next
    case False
    then show ?thesis using less.prems by (simp add: split_on_no_sep)
  qed
qed

section \<open>Numbers in text\<close>

text \<open>\<open>char::to_digit(radix)\<close> and its inverse on the digits the formatting traits print.\<close>

definition digit_val :: "char \<Rightarrow> nat option" where
  "digit_val c =
     (let n = of_char c in
      if 48 \<le> n \<and> n \<le> 57 then Some (n - 48)
      else if 97 \<le> n \<and> n \<le> 122 then Some (n - 87)
      else if 65 \<le> n \<and> n \<le> 90 then Some (n - 55)
      else None)"

definition to_digit :: "nat \<Rightarrow> char \<Rightarrow> nat option" where
  "to_digit radix c =
     (case digit_val c of Some d \<Rightarrow> (if d < radix then Some d else None) | None \<Rightarrow> None)"

definition is_ascii_hexdigit :: "char \<Rightarrow> bool" where
  "is_ascii_hexdigit c \<longleftrightarrow> to_digit 16 c \<noteq> None"

definition digit_char :: "nat \<Rightarrow> char" where
  "digit_char d = (if d < 10 then char_of (d + 48) else char_of (d + 87))"

fun parse_digits :: "nat \<Rightarrow> nat \<Rightarrow> string \<Rightarrow> nat option" where
  "parse_digits radix acc [] = Some acc"
| "parse_digits radix acc (c # s) =
     (case to_digit radix c of None \<Rightarrow> None | Some d \<Rightarrow> parse_digits radix (radix * acc + d) s)"

text \<open>
  \<open>u64::from_str_radix\<close> and \<open>str::parse::<u64>\<close>: one leading \<open>+\<close> is accepted, at least one digit is
  required, and a value that does not fit in 64 bits is an error. \<open>usize\<close> has 64 bits here.
\<close>

definition from_str_radix :: "nat \<Rightarrow> string \<Rightarrow> nat option" where
  "from_str_radix radix s =
     (let digits = (case strip_prefix s ''+'' of Some r \<Rightarrow> r | None \<Rightarrow> s) in
      if digits = [] then None
      else (case parse_digits radix 0 digits of
              None \<Rightarrow> None
            | Some n \<Rightarrow> if int n < 2 ^ 64 then Some n else None))"

definition parse_u64 :: "string \<Rightarrow> u64 option" where
  "parse_u64 s = map_option word_of_nat (from_str_radix 10 s)"

fun show_radix :: "nat \<Rightarrow> nat \<Rightarrow> string" where
  "show_radix radix n =
     (if radix < 2 \<or> n < radix then [digit_char n]
      else show_radix radix (n div radix) @ [digit_char (n mod radix)])"

declare show_radix.simps [simp del]

text \<open>\<open>format!("{}")\<close>, \<open>format!("{:04x}")\<close> and \<open>format!("{:02x}")\<close>.\<close>

definition show_dec :: "nat \<Rightarrow> string" where
  "show_dec n = show_radix 10 n"

definition show_hex_padded :: "nat \<Rightarrow> nat \<Rightarrow> string" where
  "show_hex_padded width n =
     (let s = show_radix 16 n in replicate (width - length s) (CHR ''0'') @ s)"

lemma of_char_char_of_small: "n < 256 \<Longrightarrow> of_char (char_of n :: char) = (n :: nat)"
  by simp

lemma to_digit_digit_char: "d < radix \<Longrightarrow> radix \<le> 36 \<Longrightarrow> to_digit radix (digit_char d) = Some d"
  by (auto simp: to_digit_def digit_val_def digit_char_def Let_def of_char_char_of_small)

lemma parse_digits_append:
  "parse_digits radix acc (s @ t) =
     (case parse_digits radix acc s of None \<Rightarrow> None | Some n \<Rightarrow> parse_digits radix n t)"
  by (induction s arbitrary: acc) (auto split: option.splits)

lemma parse_show_radix:
  assumes "2 \<le> radix" "radix \<le> 36"
  shows "parse_digits radix 0 (show_radix radix n) = Some n"
proof (induction n rule: less_induct)
  case (less n)
  show ?case
  proof (cases "n < radix")
    case True
    then show ?thesis using assms by (simp add: show_radix.simps[of radix n] to_digit_digit_char)
  next
    case False
    then have "n div radix < n" using assms by (intro div_less_dividend) auto
    then show ?thesis using False assms less.IH[of "n div radix"]
      by (simp add: show_radix.simps[of radix n] parse_digits_append to_digit_digit_char)
  qed
qed

lemma show_radix_not_Nil [simp]: "show_radix radix n \<noteq> []"
  by (subst show_radix.simps) simp

lemma digit_char_digit: "d < 36 \<Longrightarrow> digit_val (digit_char d) = Some d"
  by (auto simp: digit_val_def digit_char_def Let_def of_char_char_of_small)

lemma show_radix_digits:
  assumes "2 \<le> radix" "radix \<le> 36" "c \<in> set (show_radix radix n)"
  shows "\<exists>d < radix. c = digit_char d"
  using assms(3)
proof (induction n rule: less_induct)
  case (less n)
  show ?case
  proof (cases "n < radix")
    case True
    then show ?thesis using less.prems by (auto simp: show_radix.simps[of radix n])
  next
    case False
    then have "n div radix < n" using assms by (intro div_less_dividend) auto
    moreover have "n mod radix < radix" using assms by simp
    moreover have "c \<in> set (show_radix radix (n div radix)) \<or> c = digit_char (n mod radix)"
      using False less.prems assms(1) by (auto simp: show_radix.simps[of radix n])
    ultimately show ?thesis using less.IH by blast
  qed
qed

lemma length_show_radix:
  assumes "2 \<le> radix" "n < radix ^ k" "0 < k"
  shows "length (show_radix radix n) \<le> k"
  using assms(2,3)
proof (induction k arbitrary: n)
  case 0
  then show ?case by simp
next
  case (Suc k)
  show ?case
  proof (cases "n < radix")
    case True
    then show ?thesis by (simp add: show_radix.simps[of radix n])
  next
    case False
    then have "n div radix < radix ^ k" and "0 < k"
      using Suc.prems assms(1) by (auto simp: less_mult_imp_div_less mult.commute intro!: Suc_lessI gr0I)
    then show ?thesis using Suc.IH[of "n div radix"] False assms(1)
      by (simp add: show_radix.simps[of radix n])
  qed
qed

lemma parse_digits_zeros: "parse_digits 16 0 (replicate k (CHR ''0'') @ s) = parse_digits 16 0 s"
proof (induction k)
  case (Suc k)
  have "to_digit 16 (CHR ''0'') = Some 0" by (simp add: to_digit_def digit_val_def)
  then show ?case using Suc by simp
qed simp

lemma digit_char_plus: "d < 36 \<Longrightarrow> digit_char d \<noteq> CHR ''+''"
proof
  assume "d < 36" "digit_char d = CHR ''+''"
  then have "digit_val (CHR ''+'') = Some d" by (metis digit_char_digit)
  then show False by (simp add: digit_val_def)
qed

lemma from_str_radix_show:
  assumes "2 \<le> radix" "radix \<le> 36" "n < 2 ^ 64"
  shows "from_str_radix radix (show_radix radix n) = Some n"
proof -
  have "strip_prefix (show_radix radix n) ''+'' = None"
  proof (rule ccontr)
    assume "strip_prefix (show_radix radix n) ''+'' \<noteq> None"
    then obtain r where "show_radix radix n = ''+'' @ r" by (auto simp: strip_prefix_Some_iff)
    then have "CHR ''+'' \<in> set (show_radix radix n)" by simp
    then show False using show_radix_digits[OF assms(1,2)] digit_char_plus assms(2)
      by (metis less_le_trans)
  qed
  moreover have "int n < 2 ^ 64" using assms(3) by simp
  ultimately show ?thesis using assms by (simp add: from_str_radix_def parse_show_radix)
qed

lemma parse_u64_show_dec: "n < 2 ^ 64 \<Longrightarrow> parse_u64 (show_dec n) = Some (word_of_nat n)"
  by (simp add: parse_u64_def show_dec_def from_str_radix_show)

section \<open>64-bit arithmetic\<close>

text \<open>
  In a release build \<open>+\<close> and \<open>-\<close> on \<open>u64\<close> wrap around, which is what \<open>+\<close> and \<open>-\<close> on \<^typ>\<open>64 word\<close> do; a
  debug build panics instead. The lemmas below say when neither happens.
\<close>

definition saturating_mul :: "u64 \<Rightarrow> u64 \<Rightarrow> u64" where
  "saturating_mul a b = (if unat a * unat b < 2 ^ 64 then a * b else - 1)"

text \<open>\<open>x as i64\<close>: the same 64 bits read in two's complement.\<close>

definition as_i64 :: "u64 \<Rightarrow> int" where
  "as_i64 x = sint x"

lemma unat_bound [simp]: "unat (x :: u64) < 18446744073709551616"
  using unsigned_less[of x] by simp

lemma unat_add_u64: "unat a + unat b < 2 ^ 64 \<Longrightarrow> unat (a + b :: u64) = unat a + unat b"
  by (simp add: unat_word_ariths)

lemma unat_sub_u64: "unat b \<le> unat a \<Longrightarrow> unat (a - b :: u64) = unat a - unat b"
  by (simp add: unat_sub word_le_nat_alt)

lemma unat_replace_u64:
  assumes "unat old \<le> unat t" "unat t - unat old + unat new < 2 ^ 64"
  shows "unat (t - old + new :: u64) = unat t - unat old + unat new"
proof -
  have "unat (t - old) = unat t - unat old" using assms(1) by (rule unat_sub_u64)
  then show ?thesis using assms(2) by (simp add: unat_add_u64)
qed

lemma as_i64_small:
  assumes "unat x < 2 ^ 63"
  shows "as_i64 x = int (unat x)"
proof -
  have "int (unat x) < int (2 ^ 63)" using assms by (simp only: of_nat_less_iff)
  then have lt: "uint x < 2 ^ 63" by (simp only: uint_nat of_nat_power of_nat_numeral)
  have "- (2 ^ 63) \<le> (0 :: int)" by simp
  then have "- (2 ^ 63) \<le> uint x" using uint_ge_0[of x] by (rule order_trans)
  then have "signed_take_bit 63 (uint x) = uint x"
    using lt by (rule signed_take_bit_int_eq_self)
  moreover have "sint x = signed_take_bit 63 (uint x)"
    by (simp only: sint_uint) simp
  ultimately show ?thesis by (simp only: as_i64_def uint_nat)
qed

end
