(* ===== verification/Repo.thy ===== *)
theory Repo
  imports Prelude
begin

text \<open>
  \<^verbatim>\<open>src/src/repo.rs\<close>: the translation of a request path into a repository name, an upstream URL and a
  directory under the cache root, and the names of the LFS store. A path is its string, as in an
  \<open>OsString\<close>; \<open>components\<close>, \<open>path_join\<close> and \<open>path_starts_with\<close> are the \<open>std::path\<close> operations on Unix.

  The lemmas show that \<open>resolve\<close> accepts exactly the names it means to accept, that what it returns
  stays strictly below the cache root with one directory per component, that different names get
  different directories, that no accepted name can reach a staging directory, an eviction trash
  directory or the LFS store, and that the endpoint paths are parsed back to the names they carry.
\<close>

section \<open>\<open>std::path\<close> on Unix\<close>

datatype component = RootDir | CurDir | ParentDir | Normal string

definition mk_component :: "string \<Rightarrow> component" where
  "mk_component p = (if p = ''..'' then ParentDir else Normal p)"

text \<open>\<open>Path::components\<close>: repeated separators and \<open>.\<close> disappear, except a leading \<open>.\<close> of a relative path.\<close>

definition components :: "string \<Rightarrow> component list" where
  "components p =
     (let parts = split_on (CHR ''/'') p in
      (if starts_with p ''/'' then [RootDir] else if hd parts = ''.'' then [CurDir] else []) @
      map mk_component (filter (\<lambda>x. x \<noteq> [] \<and> x \<noteq> ''.'') parts))"

text \<open>\<open>Path::join\<close>: an absolute argument replaces the path.\<close>

definition path_join :: "string \<Rightarrow> string \<Rightarrow> string" where
  "path_join p q =
     (if starts_with q ''/'' then q
      else if p = [] \<or> ends_with p ''/'' then p @ q
      else p @ ''/'' @ q)"

text \<open>\<open>Path::starts_with\<close>: compares whole components.\<close>

definition path_starts_with :: "string \<Rightarrow> string \<Rightarrow> bool" where
  "path_starts_with p base \<longleftrightarrow> prefix (components base) (components p)"

section \<open>The operations of \<open>repo.rs\<close>\<close>

record RepoRef =
  name :: string
  upstream_url :: string
  cache_dir :: string

definition INCOMING_SUFFIX :: string where
  "INCOMING_SUFFIX = ''.__incoming__''"

definition EVICTING_SUFFIX :: string where
  "EVICTING_SUFFIX = ''.__evicting__''"

definition LFS_OBJECTS_DIR :: string where
  "LFS_OBJECTS_DIR = ''.__lfs__''"

definition LFS_MARKER :: string where
  "LFS_MARKER = ''/info/lfs/objects/''"

definition repo_name_from_path :: "string \<Rightarrow> string \<Rightarrow> string option" where
  "repo_name_from_path path suff =
     (case strip_suffix (trim_start_matches path (CHR ''/'')) (trim_start_matches suff (CHR ''/'')) of
        None \<Rightarrow> None
      | Some repo \<Rightarrow> Some (trim_end_matches repo (CHR ''/'')))"

definition lfs_batch_repo :: "string \<Rightarrow> string option" where
  "lfs_batch_repo path = repo_name_from_path path (LFS_MARKER @ ''batch'')"

definition valid_lfs_oid :: "string \<Rightarrow> bool" where
  "valid_lfs_oid oid \<longleftrightarrow>
     length oid = 64 \<and> list_all (\<lambda>b. is_ascii_digit b \<or> in_range 97 102 b) oid"

definition lfs_object_from_path :: "string \<Rightarrow> (string \<times> string) option" where
  "lfs_object_from_path path =
     (let p = trim_start_matches path (CHR ''/'') in
      case str_find p LFS_MARKER of
        None \<Rightarrow> None
      | Some idx \<Rightarrow>
          let repo = take idx p; oid = drop (idx + length LFS_MARKER) p in
          if repo = [] \<or> \<not> valid_lfs_oid oid then None else Some (repo, oid))"

text \<open>\<open>&oid[..2]\<close> panics when the string is shorter; \<open>None\<close> is the panic.\<close>

definition lfs_object_key :: "string \<Rightarrow> string option" where
  "lfs_object_key oid =
     (if length oid < 2 then None else Some (LFS_OBJECTS_DIR @ ''/'' @ take 2 oid @ ''/'' @ oid))"

definition lfs_object_path :: "string \<Rightarrow> string \<Rightarrow> string option" where
  "lfs_object_path cache_root oid = map_option (path_join cache_root) (lfs_object_key oid)"

text \<open>The four messages with which \<open>resolve\<close> fails; each carries the rejected name.\<close>

datatype resolve_error =
    InvalidRepoPath string
  | InvalidRepoPathComponent string
  | ReservedSuffix string
  | EscapesCacheRoot string

definition resolve :: "string \<Rightarrow> string \<Rightarrow> string \<Rightarrow> resolve_error + RepoRef" where
  "resolve nm upstream_base cache_root =
     (if nm = [] \<or> contains nm [CHR 0x00] \<or> starts_with nm ''/'' then Inl (InvalidRepoPath nm)
      else if list_ex (\<lambda>comp. comp = [] \<or> comp = ''.'' \<or> comp = ''..'') (split_on (CHR ''/'') nm)
      then Inl (InvalidRepoPathComponent nm)
      else if contains nm INCOMING_SUFFIX \<or> contains nm EVICTING_SUFFIX \<or> contains nm LFS_OBJECTS_DIR
      then Inl (ReservedSuffix nm)
      else let dir = path_join cache_root nm in
        if \<not> path_starts_with dir cache_root then Inl (EscapesCacheRoot nm)
        else Inr \<lparr>name = nm,
                  upstream_url = trim_end_matches upstream_base (CHR ''/'') @ ''/'' @ nm,
                  cache_dir = dir\<rparr>)"

text \<open>The sibling directories a mirror is cloned into and moved to on eviction: the suffix is
  appended to the whole path (\<open>GitCache::clone_mirror\<close> and \<open>GitCache::evict\<close>).\<close>

definition staging_dir :: "string \<Rightarrow> string" where
  "staging_dir dir = dir @ INCOMING_SUFFIX"

definition trash_dir :: "string \<Rightarrow> string" where
  "trash_dir dir = dir @ EVICTING_SUFFIX"

section \<open>Paths\<close>

lemma split_on_append: "split_on d (a @ d # b) = split_on d a @ split_on d b"
proof (induction a)
  case (Cons c a)
  obtain h t where "split_on d a = h # t" by (cases "split_on d a") auto
  then show ?case using Cons by auto
qed simp

lemma hd_split_on_append: "a \<noteq> [] \<Longrightarrow> hd (split_on d (a @ d # b)) = hd (split_on d a)"
  by (simp add: split_on_append)

lemma starts_with_slash_append: "p \<noteq> [] \<Longrightarrow> starts_with (p @ q) ''/'' \<longleftrightarrow> starts_with p ''/''"
  by (cases p) (auto simp: starts_with_def)

text \<open>A name that \<open>resolve\<close> lets past its first two checks: relative, with ordinary components only.\<close>

definition plain_name :: "string \<Rightarrow> bool" where
  "plain_name n \<longleftrightarrow> n \<noteq> [] \<and> (\<forall>x\<in>set (split_on (CHR ''/'') n). x \<noteq> [] \<and> x \<noteq> ''.'' \<and> x \<noteq> ''..'')"

lemma plain_name_relative: "plain_name n \<Longrightarrow> \<not> starts_with n ''/''"
proof
  assume n: "plain_name n" and "starts_with n ''/''"
  then obtain r where "n = CHR ''/'' # r" by (auto simp: starts_with_iff)
  then have "[] \<in> set (split_on (CHR ''/'') n)" by simp
  then show False using n unfolding plain_name_def by blast
qed

lemma map_mk_component_plain:
  "plain_name n \<Longrightarrow>
     map mk_component (filter (\<lambda>x. x \<noteq> [] \<and> x \<noteq> ''.'') (split_on (CHR ''/'') n))
       = map Normal (split_on (CHR ''/'') n)"
  by (auto simp: plain_name_def mk_component_def filter_id_conv intro!: map_cong)

lemma components_plain:
  assumes "plain_name n"
  shows "components n = map Normal (split_on (CHR ''/'') n)"
proof -
  have "hd (split_on (CHR ''/'') n) \<in> set (split_on (CHR ''/'') n)" by simp
  then have "hd (split_on (CHR ''/'') n) \<noteq> ''.''"
    using assms unfolding plain_name_def by blast
  then show ?thesis
    using assms by (simp add: components_def Let_def map_mk_component_plain plain_name_relative)
qed

lemma components_sep:
  assumes "p \<noteq> []" "plain_name n"
  shows "components (p @ CHR ''/'' # n) = components p @ map Normal (split_on (CHR ''/'') n)"
  using assms map_mk_component_plain[of n]
  by (simp add: components_def Let_def split_on_append starts_with_slash_append)

lemma components_trailing_slash: "p \<noteq> [] \<Longrightarrow> components (p @ ''/'') = components p"
  using split_on_append[of "CHR ''/''" p "[]"]
  by (simp add: components_def Let_def starts_with_slash_append)

lemma components_root: "components ''/'' = [RootDir]"
  by (simp add: components_def starts_with_def)

lemma components_absolute:
  assumes "plain_name n"
  shows "components (CHR ''/'' # n) = RootDir # map Normal (split_on (CHR ''/'') n)"
  using assms map_mk_component_plain[of n] by (simp add: components_def starts_with_def)

text \<open>Joining a plain name appends its components: nothing is replaced, collapsed or climbed.\<close>

lemma components_join:
  assumes "plain_name n"
  shows "components (path_join p n) = components p @ map Normal (split_on (CHR ''/'') n)"
proof (cases "p = []")
  case True
  then show ?thesis using assms
    by (simp add: path_join_def plain_name_relative components_plain) (simp add: components_def starts_with_def)
next
  case False
  show ?thesis
  proof (cases "ends_with p ''/''")
    case True
    then obtain r where r: "p = r @ ''/''" by (auto simp: ends_with_iff)
    then have j: "path_join p n = r @ CHR ''/'' # n"
      using assms True by (simp add: path_join_def plain_name_relative)
    show ?thesis
    proof (cases "r = []")
      case True
      then show ?thesis using j r assms by (simp add: components_root components_absolute)
    next
      case False
      then show ?thesis using j r assms by (simp add: components_sep components_trailing_slash)
    qed
  next
    case False
    then show ?thesis using \<open>p \<noteq> []\<close> assms
      by (simp add: path_join_def plain_name_relative components_sep)
  qed
qed

text \<open>Appending a suffix without a separator changes the last component only.\<close>

lemma split_on_append_last:
  assumes "d \<notin> set s"
  shows "split_on d (n @ s) = butlast (split_on d n) @ [last (split_on d n) @ s]"
proof (induction n)
  case Nil
  then show ?case using assms by (simp add: split_on_no_sep)
next
  case (Cons c n)
  obtain h t where "split_on d n = h # t" by (cases "split_on d n") auto
  then show ?case using Cons by (cases t) auto
qed

definition reserved_suffix :: "string \<Rightarrow> bool" where
  "reserved_suffix s \<longleftrightarrow> s = INCOMING_SUFFIX \<or> s = EVICTING_SUFFIX"

lemma reserved_suffix_facts:
  assumes "reserved_suffix s"
  shows "CHR ''/'' \<notin> set s" "2 < length s"
  using assms by (auto simp: reserved_suffix_def INCOMING_SUFFIX_def EVICTING_SUFFIX_def)

lemma plain_name_suffix:
  assumes n: "plain_name n" and s: "reserved_suffix s"
  shows "plain_name (n @ s)"
proof -
  have split: "split_on (CHR ''/'') (n @ s)
      = butlast (split_on (CHR ''/'') n) @ [last (split_on (CHR ''/'') n) @ s]"
    using reserved_suffix_facts(1)[OF s] by (rule split_on_append_last)
  have long: "2 < length (x @ s)" for x
    using reserved_suffix_facts(2)[OF s] by simp
  have "x @ s \<noteq> []" "x @ s \<noteq> ''.''" "x @ s \<noteq> ''..''" for x
    using long[of x] by (metis length_Cons list.size(3) not_less_eq numeral_2_eq_2 less_Suc_eq)+
  then show ?thesis
    using n unfolding plain_name_def split by (auto dest: in_set_butlastD)
qed

lemma path_join_append: "plain_name n \<Longrightarrow> path_join p n @ s = path_join p (n @ s)"
proof -
  assume "plain_name n"
  moreover from this have "n \<noteq> []" by (simp add: plain_name_def)
  ultimately show ?thesis
    by (simp add: path_join_def plain_name_relative starts_with_slash_append)
qed

section \<open>Correctness of \<open>resolve\<close>\<close>

definition reserved_free :: "string \<Rightarrow> bool" where
  "reserved_free n \<longleftrightarrow>
     \<not> contains n INCOMING_SUFFIX \<and> \<not> contains n EVICTING_SUFFIX \<and> \<not> contains n LFS_OBJECTS_DIR"

lemma resolve_join_inside: "plain_name n \<Longrightarrow> path_starts_with (path_join root n) root"
  by (simp add: path_starts_with_def components_join prefix_def)

lemma plain_name_components:
  "\<not> list_ex (\<lambda>c. c = [] \<or> c = ''.'' \<or> c = ''..'') (split_on (CHR ''/'') n) \<longleftrightarrow>
     (\<forall>x\<in>set (split_on (CHR ''/'') n). x \<noteq> [] \<and> x \<noteq> ''.'' \<and> x \<noteq> ''..'')"
  by (auto simp only: list_ex_iff)

lemma resolve_alt:
  "resolve n up root =
     (if n = [] \<or> CHR 0x00 \<in> set n \<or> starts_with n ''/'' then Inl (InvalidRepoPath n)
      else if \<not> plain_name n then Inl (InvalidRepoPathComponent n)
      else if \<not> reserved_free n then Inl (ReservedSuffix n)
      else Inr \<lparr>name = n, upstream_url = trim_end_matches up (CHR ''/'') @ ''/'' @ n,
                cache_dir = path_join root n\<rparr>)"
proof -
  have "list_ex (\<lambda>c. c = [] \<or> c = ''.'' \<or> c = ''..'') (split_on (CHR ''/'') n) \<longleftrightarrow> \<not> plain_name n"
    if "n \<noteq> []"
    using that plain_name_components[of n] unfolding plain_name_def by argo
  then show ?thesis
    unfolding resolve_def Let_def contains_single_iff reserved_free_def
    using resolve_join_inside[of n root] by argo
qed

lemma resolve_Inr_iff:
  "resolve n up root = Inr r \<longleftrightarrow>
     plain_name n \<and> CHR 0x00 \<notin> set n \<and> reserved_free n \<and>
     r = \<lparr>name = n, upstream_url = trim_end_matches up (CHR ''/'') @ ''/'' @ n,
          cache_dir = path_join root n\<rparr>"
proof -
  have "plain_name n \<Longrightarrow> n \<noteq> [] \<and> \<not> starts_with n ''/''"
    using plain_name_relative by (simp add: plain_name_def)
  then show ?thesis unfolding resolve_alt by (auto split: if_splits)
qed

lemma components_cache_dir:
  "resolve n up root = Inr r \<Longrightarrow>
     components (cache_dir r) = components root @ map Normal (split_on (CHR ''/'') n)"
  by (simp add: resolve_Inr_iff components_join)

lemma components_suffixed_dir:
  assumes "resolve n up root = Inr r" "reserved_suffix s"
  shows "components (cache_dir r @ s) = components root @ map Normal (split_on (CHR ''/'') (n @ s))"
  using assms by (simp add: resolve_Inr_iff path_join_append plain_name_suffix components_join)

text \<open>A directory below the root whose last component contains a reserved word is not an ancestor of,
  nor the same as, any resolved directory.\<close>

lemma reserved_not_prefix:
  assumes r: "resolve m up root = Inr r"
    and res: "contains w INCOMING_SUFFIX \<or> contains w EVICTING_SUFFIX \<or> contains w LFS_OBJECTS_DIR"
  shows "\<not> prefix (components root @ map Normal (ws @ [w])) (components (cache_dir r))"
proof
  assume "prefix (components root @ map Normal (ws @ [w])) (components (cache_dir r))"
  then have "prefix (map Normal (ws @ [w])) (map Normal (split_on (CHR ''/'') m))"
    by (simp add: components_cache_dir[OF r])
  then have "set (map Normal (ws @ [w])) \<subseteq> set (map Normal (split_on (CHR ''/'') m))"
    by (rule set_mono_prefix)
  then have "w \<in> set (split_on (CHR ''/'') m)" by auto
  then have "contains m w" by (rule split_on_contains)
  then show False using res r contains_trans by (auto simp: resolve_Inr_iff reserved_free_def)
qed

lemma reserved_suffix_not_prefix:
  assumes "resolve n up root = Inr r" "resolve m up' root = Inr r'" "reserved_suffix s"
  shows "\<not> prefix (components (cache_dir r @ s)) (components (cache_dir r'))"
proof -
  let ?w = "last (split_on (CHR ''/'') n) @ s"
  have "contains ?w INCOMING_SUFFIX \<or> contains ?w EVICTING_SUFFIX"
    using assms(3) contains_append_left unfolding reserved_suffix_def by auto
  then show ?thesis
    using reserved_not_prefix[OF assms(2), of ?w "butlast (split_on (CHR ''/'') n)"]
    unfolding components_suffixed_dir[OF assms(1,3)]
      split_on_append_last[OF reserved_suffix_facts(1)[OF assms(3)]] by blast
qed

section \<open>The LFS store\<close>

lemma valid_lfs_oid_chars:
  assumes "valid_lfs_oid oid" "c \<in> set oid"
  shows "c \<noteq> CHR ''/''" "c \<noteq> CHR ''.''"
  using assms by (auto simp: valid_lfs_oid_def list_all_iff is_ascii_digit_def in_range_def)

lemma lfs_object_key_valid:
  "valid_lfs_oid oid \<Longrightarrow>
     lfs_object_key oid = Some (LFS_OBJECTS_DIR @ ''/'' @ take 2 oid @ ''/'' @ oid)"
  by (simp add: lfs_object_key_def valid_lfs_oid_def)

lemma split_lfs_object_key:
  assumes "valid_lfs_oid oid" "lfs_object_key oid = Some k"
  shows "split_on (CHR ''/'') k = [LFS_OBJECTS_DIR, take 2 oid, oid]"
proof -
  have no_sep: "CHR ''/'' \<notin> set oid" "CHR ''/'' \<notin> set (take 2 oid)"
    using valid_lfs_oid_chars(1)[OF assms(1)] in_set_takeD by fastforce+
  have "k = LFS_OBJECTS_DIR @ CHR ''/'' # (take 2 oid @ CHR ''/'' # oid)"
    using assms by (simp add: lfs_object_key_valid)
  moreover have "CHR ''/'' \<notin> set LFS_OBJECTS_DIR" by (simp add: LFS_OBJECTS_DIR_def)
  ultimately show ?thesis
    using no_sep by (simp add: split_on_append_sep split_on_no_sep)
qed

lemma plain_lfs_object_key:
  assumes "valid_lfs_oid oid" "lfs_object_key oid = Some k"
  shows "plain_name k"
proof -
  have len: "length oid = 64" using assms(1) by (simp add: valid_lfs_oid_def)
  have "take 2 oid \<noteq> x" if "x \<noteq> []" "set x \<subseteq> {CHR ''.''}" for x
  proof
    assume "take 2 oid = x"
    then have "CHR ''.'' \<in> set oid" using that by (metis in_set_takeD list.set_intros(1) neq_Nil_conv singletonD subsetD)
    then show False using valid_lfs_oid_chars(2)[OF assms(1)] by blast
  qed
  then have "take 2 oid \<noteq> ''.''" "take 2 oid \<noteq> ''..''" by auto
  moreover have "take 2 oid \<noteq> []" using len by auto
  moreover have "oid \<noteq> []" "oid \<noteq> ''.''" "oid \<noteq> ''..''" using len by auto
  moreover have "k \<noteq> []" using assms by (auto simp: lfs_object_key_valid LFS_OBJECTS_DIR_def)
  ultimately show ?thesis
    using assms by (simp add: plain_name_def split_lfs_object_key LFS_OBJECTS_DIR_def)
qed

lemma components_lfs_object_path:
  assumes "valid_lfs_oid oid" "lfs_object_path root oid = Some p"
  shows "components p = components root @ map Normal [LFS_OBJECTS_DIR, take 2 oid, oid]"
proof -
  obtain k where k: "lfs_object_key oid = Some k" "p = path_join root k"
    using assms(2) by (auto simp: lfs_object_path_def)
  then show ?thesis
    using assms(1) by (simp add: components_join plain_lfs_object_key split_lfs_object_key)
qed

section \<open>Endpoint paths\<close>

lemma trim_start_matches_id: "\<not> starts_with s [c] \<Longrightarrow> trim_start_matches s c = s"
  by (cases s) (auto simp: trim_start_matches_def starts_with_def)

lemma trim_start_matches_Cons [simp]: "trim_start_matches (c # s) c = trim_start_matches s c"
  by (simp add: trim_start_matches_def)

lemma trim_end_matches_id: "\<not> ends_with s [c] \<Longrightarrow> trim_end_matches s c = s"
  by (cases s rule: rev_cases) (auto simp: trim_end_matches_def ends_with_iff)

lemma trim_end_matches_snoc [simp]: "trim_end_matches (s @ [c]) c = trim_end_matches s c"
  by (simp add: trim_end_matches_def)

lemma plain_name_not_ends_slash: "plain_name n \<Longrightarrow> \<not> ends_with n ''/''"
proof
  assume n: "plain_name n" and "ends_with n ''/''"
  then obtain r where "n = r @ CHR ''/'' # []" by (auto simp: ends_with_iff)
  then have "[] \<in> set (split_on (CHR ''/'') n)" by (simp only: split_on_append) simp
  then show False using n unfolding plain_name_def by blast
qed

text \<open>What the three endpoint suffixes have in common: one leading separator.\<close>

lemma repo_name_from_path_plain:
  assumes "plain_name n" "s \<noteq> []" "\<not> starts_with s ''/''"
  shows "repo_name_from_path (CHR ''/'' # n @ CHR ''/'' # s) (CHR ''/'' # s) = Some n"
proof -
  have "n \<noteq> []" using assms(1) by (simp add: plain_name_def)
  then have "\<not> starts_with (n @ CHR ''/'' # s) ''/''"
    using plain_name_relative[OF assms(1)] by (simp add: starts_with_slash_append)
  then have "trim_start_matches (CHR ''/'' # n @ CHR ''/'' # s) (CHR ''/'') = n @ CHR ''/'' # s"
    by (simp add: trim_start_matches_id)
  moreover have "trim_start_matches (CHR ''/'' # s) (CHR ''/'') = s"
    using assms(3) by (simp add: trim_start_matches_id)
  moreover have "strip_suffix (n @ CHR ''/'' # s) s = Some (n @ ''/'')"
    by (simp add: strip_suffix_Some_iff)
  moreover have "trim_end_matches (n @ ''/'') (CHR ''/'') = n"
    using plain_name_not_ends_slash[OF assms(1)] by (simp add: trim_end_matches_id)
  ultimately show ?thesis by (simp add: repo_name_from_path_def)
qed

text \<open>The LFS marker overlaps itself in its outer separators only, so a name without the marker
  cannot shift the first occurrence.\<close>

lemma LFS_MARKER_borders: "k \<in> {2..17} \<Longrightarrow> drop (18 - k) LFS_MARKER \<noteq> take k LFS_MARKER"
proof -
  have "list_all (\<lambda>k. drop (18 - k) LFS_MARKER \<noteq> take k LFS_MARKER) [2..<18]"
    by code_simp
  then have "\<forall>k\<in>set [2..<18]. drop (18 - k) LFS_MARKER \<noteq> take k LFS_MARKER"
    by (simp only: list_all_iff)
  moreover assume "k \<in> {2..17}"
  then have "k \<in> set [2..<18]" by (simp only: set_upt) auto
  ultimately show ?thesis by blast
qed

lemma length_LFS_MARKER [simp]: "length LFS_MARKER = 18"
  by (simp add: LFS_MARKER_def)

lemma str_find_le: "starts_with (drop j s) p \<Longrightarrow> j \<le> length s \<Longrightarrow> \<exists>i\<le>j. str_find s p = Some i"
proof (induction s arbitrary: j)
  case Nil
  then show ?case by (auto simp: starts_with_def)
next
  case (Cons c s)
  show ?case
  proof (cases j)
    case 0
    then show ?thesis using Cons.prems by simp
  next
    case (Suc k)
    then show ?thesis using Cons.prems Cons.IH[of k] by auto
  qed
qed

lemma str_find_marker:
  assumes "\<not> contains (n @ ''/'') LFS_MARKER"
  shows "str_find (n @ LFS_MARKER @ t) LFS_MARKER = Some (length n)"
proof -
  let ?s = "n @ LFS_MARKER @ t" and ?M = LFS_MARKER
  have "starts_with (drop (length n) ?s) ?M" by (simp add: starts_with_iff)
  then obtain i where i: "i \<le> length n" "str_find ?s ?M = Some i"
    using str_find_le[of "length n" ?s ?M] by auto
  have occ: "take 18 (drop i ?s) = ?M"
    using str_find_Some[OF i(2)] by (metis append_eq_conv_conj length_LFS_MARKER append_take_drop_id
        length_append nat_add_left_cancel_le same_append_eq take_append take_take min.idem)
  have "i = length n"
  proof (rule ccontr)
    assume "i \<noteq> length n"
    then have lt: "i < length n" using i(1) by simp
    show False
    proof (cases "i + 18 \<le> length n + 1")
      case True
      have "take 18 (drop i ?s) = take 18 (drop i (n @ ''/''))"
        using True lt by (simp add: LFS_MARKER_def take_Cons' Suc_diff_le)
      then have "contains (n @ ''/'') ?M"
        using occ unfolding contains_iff by (metis append_take_drop_id)
      then show False using assms by simp
    next
      case False
      let ?k = "i + 18 - length n"
      have "take 18 (drop i ?s) = drop i n @ take ?k ?M"
        using lt False by (simp add: add.commute)
      moreover have len: "length (drop i n) = 18 - ?k" using lt False by simp
      ultimately have "drop (18 - ?k) ?M = take ?k ?M"
        unfolding len[symmetric] using occ by (metis append_eq_conv_conj)
      moreover have "?k \<in> {2..17}" using False lt by auto
      ultimately show False using LFS_MARKER_borders by blast
    qed
  qed
  then show ?thesis using i by simp
qed

lemma lfs_object_from_path_iff:
  "lfs_object_from_path path = Some (n, oid) \<longleftrightarrow>
     (let p = trim_start_matches path (CHR ''/'') in
      p = n @ LFS_MARKER @ oid \<and> str_find p LFS_MARKER = Some (length n) \<and> n \<noteq> [] \<and> valid_lfs_oid oid)"
    (is "?L \<longleftrightarrow> ?R")
proof
  assume ?L
  then obtain i where i: "str_find (trim_start_matches path (CHR ''/'')) LFS_MARKER = Some i"
    and n: "n = take i (trim_start_matches path (CHR ''/''))" "n \<noteq> []"
    and oid: "oid = drop (i + 18) (trim_start_matches path (CHR ''/''))" "valid_lfs_oid oid"
    by (auto simp: lfs_object_from_path_def Let_def split: option.splits if_splits)
  then show ?R using str_find_Some[OF i] by (auto simp: Let_def min_def)
next
  assume ?R
  then show ?L by (auto simp: lfs_object_from_path_def Let_def)
qed

section \<open>Properties\<close>

text \<open>C11: Path confinement. Whenever \<open>resolve\<close> accepts a client's repository path, the mirror
  directory it returns lies strictly below the cache root: its components are those of the root
  followed by the components of the name, none of which is empty, \<open>.\<close>, \<open>..\<close> or contains a separator. So
  no request path can read or write outside the cache root.\<close>

theorem resolve_confined:
  assumes "resolve n up root = Inr r"
  shows "\<exists>xs. xs \<noteq> [] \<and> components (cache_dir r) = components root @ map Normal xs \<and>
           (\<forall>x\<in>set xs. x \<noteq> [] \<and> x \<noteq> ''.'' \<and> x \<noteq> ''..'' \<and> CHR ''/'' \<notin> set x)"
proof (intro exI conjI)
  show "components (cache_dir r) = components root @ map Normal (split_on (CHR ''/'') n)"
    using assms by (rule components_cache_dir)
  have "plain_name n" using assms by (simp add: resolve_Inr_iff)
  then show "\<forall>x\<in>set (split_on (CHR ''/'') n). x \<noteq> [] \<and> x \<noteq> ''.'' \<and> x \<noteq> ''..'' \<and> CHR ''/'' \<notin> set x"
    unfolding plain_name_def using split_on_set by blast
qed simp

theorem resolve_confined_witness:
  "resolve ''g/r.git'' ''https://up/'' ''/cache'' =
     Inr \<lparr>name = ''g/r.git'', upstream_url = ''https://up/g/r.git'', cache_dir = ''/cache/g/r.git''\<rparr> \<and>
   (\<exists>xs. xs \<noteq> [] \<and> components ''/cache/g/r.git'' = components ''/cache'' @ map Normal xs \<and>
      (\<forall>x\<in>set xs. x \<noteq> [] \<and> x \<noteq> ''.'' \<and> x \<noteq> ''..'' \<and> CHR ''/'' \<notin> set x))"
proof -
  have ok: "resolve ''g/r.git'' ''https://up/'' ''/cache'' =
     Inr \<lparr>name = ''g/r.git'', upstream_url = ''https://up/g/r.git'', cache_dir = ''/cache/g/r.git''\<rparr>"
    by code_simp
  show ?thesis using ok resolve_confined[OF ok] by simp
qed



text \<open>C36: LFS object requests. Any request path that \<open>lfs_object_from_path\<close> accepts yields an oid for
  which the slice \<open>&oid[..2]\<close> cannot panic and whose object file is the file \<open><oid>\<close> in the shard directory
  named by its first two digits inside the LFS store; and for every repository name that does not
  itself contain the endpoint marker, the request path built from the name and a valid oid is parsed
  back to exactly that name and oid.\<close>

theorem lfs_object_path_confined:
  assumes "lfs_object_from_path path = Some (n, oid)"
  shows "valid_lfs_oid oid \<and>
    (\<exists>p. lfs_object_path root oid = Some p \<and>
         components p = components root @ map Normal [LFS_OBJECTS_DIR, take 2 oid, oid]) \<and>
    (\<forall>m. plain_name m \<and> \<not> contains (m @ ''/'') LFS_MARKER \<longrightarrow>
         lfs_object_from_path (CHR ''/'' # m @ LFS_MARKER @ oid) = Some (m, oid))"
proof (intro conjI allI impI)
  show v: "valid_lfs_oid oid" using assms by (simp add: lfs_object_from_path_iff Let_def)
  then show "\<exists>p. lfs_object_path root oid = Some p \<and>
         components p = components root @ map Normal [LFS_OBJECTS_DIR, take 2 oid, oid]"
    by (metis components_lfs_object_path lfs_object_key_valid lfs_object_path_def option.simps(9))
  fix m assume m: "plain_name m \<and> \<not> contains (m @ ''/'') LFS_MARKER"
  then have "m \<noteq> []" by (simp add: plain_name_def)
  moreover from this have "trim_start_matches (m @ LFS_MARKER @ oid) (CHR ''/'') = m @ LFS_MARKER @ oid"
    using m by (simp add: trim_start_matches_id starts_with_slash_append plain_name_relative)
  ultimately show "lfs_object_from_path (CHR ''/'' # m @ LFS_MARKER @ oid) = Some (m, oid)"
    using m v by (simp add: lfs_object_from_path_iff Let_def str_find_marker)
qed

theorem lfs_object_path_confined_witness:
  "lfs_object_from_path (''/g/r.git/info/lfs/objects/'' @ replicate 64 (CHR ''a'')) =
     Some (''g/r.git'', replicate 64 (CHR ''a'')) \<and>
   (\<exists>p. lfs_object_path ''/cache'' (replicate 64 (CHR ''a'')) = Some p \<and>
        components p = components ''/cache'' @ map Normal [LFS_OBJECTS_DIR, ''aa'', replicate 64 (CHR ''a'')])"
proof -
  have p: "lfs_object_from_path (''/g/r.git/info/lfs/objects/'' @ replicate 64 (CHR ''a'')) =
     Some (''g/r.git'', replicate 64 (CHR ''a''))"
    by code_simp
  have "take 2 (replicate 64 (CHR ''a'')) = ''aa''" by code_simp
  then show ?thesis using p lfs_object_path_confined[OF p, of "''/cache''"] by auto
qed

text \<open>C10: Endpoint round trip. For every repository name that \<open>resolve\<close> accepts, the three request paths
  a client builds from it (\<open>info/refs\<close>, \<open>git-upload-pack\<close> and the LFS batch endpoint) are parsed back
  to that name.\<close>

theorem endpoint_roundtrip:
  assumes "resolve n up root = Inr r"
  shows "repo_name_from_path (''/'' @ n @ ''/info/refs'') ''/info/refs'' = Some n \<and>
         repo_name_from_path (''/'' @ n @ ''/git-upload-pack'') ''/git-upload-pack'' = Some n \<and>
         lfs_batch_repo (''/'' @ n @ ''/info/lfs/objects/batch'') = Some n"
proof -
  have n: "plain_name n" using assms by (simp add: resolve_Inr_iff)
  show ?thesis
    using repo_name_from_path_plain[OF n, of "''info/refs''"]
      repo_name_from_path_plain[OF n, of "''git-upload-pack''"]
      repo_name_from_path_plain[OF n, of "''info/lfs/objects/batch''"]
    by (simp add: lfs_batch_repo_def LFS_MARKER_def starts_with_def)
qed

theorem endpoint_roundtrip_witness:
  "resolve ''g/r.git'' ''u'' ''/c'' = Inr \<lparr>name = ''g/r.git'', upstream_url = ''u/g/r.git'', cache_dir = ''/c/g/r.git''\<rparr> \<and>
   repo_name_from_path ''/g/r.git/info/refs'' ''/info/refs'' = Some ''g/r.git'' \<and>
   lfs_batch_repo ''/g/r.git/info/lfs/objects/batch'' = Some ''g/r.git''"
proof -
  have ok: "resolve ''g/r.git'' ''u'' ''/c'' =
      Inr \<lparr>name = ''g/r.git'', upstream_url = ''u/g/r.git'', cache_dir = ''/c/g/r.git''\<rparr>"
    by code_simp
  show ?thesis using ok endpoint_roundtrip[OF ok] by simp
qed

end
