(* ===== verification/Metrics.thy ===== *)
theory Metrics
  imports Prelude
begin

text \<open>
  \<^verbatim>\<open>src/src/metrics.rs\<close>: the label enumerations, the metric families \<open>Metrics::new\<close> creates and
  registers, and the recording methods.

  The \<open>prometheus\<close> crate is not part of the repository, so its counters, gauges and histograms are not
  modelled: what the program does to them is, as the sequence of calls it makes. A recording method
  is the list of \<open>metric_call\<close>s it performs, and the components append these calls to the trace of their
  world. The crate's \<open>with_label_values\<close> panics when the number of label values is not that of the
  family; \<open>call_ok\<close> says that a call names a registered family of its own kind with the right number of
  labels, and holds for every call the methods can make.
\<close>

section \<open>Label values\<close>

datatype RequestKind = InfoRefs | UploadPack | Auth | ReceivePack | LfsBatch | LfsObject

datatype Status = Ok | Error | UpstreamError | Unauthorized | Rejected

datatype UpstreamOp = Clone | Fetch | WantFetch

datatype ServeKind = ServeInfoRefs | ServeUploadPack

datatype LfsResult = Hit | Miss | LfsError

datatype CacheOutcome = Cloned | Fetched | Cached

fun RequestKind_as_str :: "RequestKind \<Rightarrow> string" where
  "RequestKind_as_str InfoRefs = ''info_refs''"
| "RequestKind_as_str UploadPack = ''upload_pack''"
| "RequestKind_as_str Auth = ''auth''"
| "RequestKind_as_str ReceivePack = ''receive_pack''"
| "RequestKind_as_str LfsBatch = ''lfs_batch''"
| "RequestKind_as_str LfsObject = ''lfs_object''"

fun Status_as_str :: "Status \<Rightarrow> string" where
  "Status_as_str Ok = ''ok''"
| "Status_as_str Error = ''error''"
| "Status_as_str UpstreamError = ''upstream_error''"
| "Status_as_str Unauthorized = ''unauthorized''"
| "Status_as_str Rejected = ''rejected''"

fun UpstreamOp_as_str :: "UpstreamOp \<Rightarrow> string" where
  "UpstreamOp_as_str Clone = ''clone''"
| "UpstreamOp_as_str Fetch = ''fetch''"
| "UpstreamOp_as_str WantFetch = ''want_fetch''"

fun ServeKind_as_str :: "ServeKind \<Rightarrow> string" where
  "ServeKind_as_str ServeInfoRefs = ''info_refs''"
| "ServeKind_as_str ServeUploadPack = ''upload_pack''"

fun LfsResult_as_str :: "LfsResult \<Rightarrow> string" where
  "LfsResult_as_str Hit = ''hit''"
| "LfsResult_as_str Miss = ''miss''"
| "LfsResult_as_str LfsError = ''error''"

section \<open>Metric families\<close>

datatype metric_desc =
    IntCounterVec string string "string list"
  | IntCounter string string
  | IntGauge string string
  | HistogramVec string string "nat list" "string list"

fun desc_name :: "metric_desc \<Rightarrow> string" where
  "desc_name (IntCounterVec n h ls) = n"
| "desc_name (IntCounter n h) = n"
| "desc_name (IntGauge n h) = n"
| "desc_name (HistogramVec n h bs ls) = n"

text \<open>The bounds of the histograms' buckets, in milliseconds.\<close>

definition DURATION_BUCKETS :: "nat list" where
  "DURATION_BUCKETS = [50, 100, 250, 500, 1000, 2500, 5000, 10000, 30000, 60000, 120000, 300000]"

text \<open>The families in the order in which \<open>Metrics::new\<close> registers them.\<close>

definition Metrics_new :: "metric_desc list" where
  "Metrics_new =
     [IntCounterVec ''gitcacheproxy_requests_total'' ''Git requests served'' [''kind'', ''result'', ''repo''],
      IntCounterVec ''gitcacheproxy_upstream_ops_total'' ''Upstream clone/fetch operations'' [''op'', ''result'', ''repo''],
      IntGauge ''gitcacheproxy_cache_bytes'' ''Total size of the on-disk mirror cache in bytes'',
      IntGauge ''gitcacheproxy_cache_mirrors'' ''Number of cached mirrors on disk'',
      IntGauge ''gitcacheproxy_cache_max_bytes'' ''Configured on-disk cache cap in bytes (0 = unlimited)'',
      IntGauge ''gitcacheproxy_fetch_ttl_seconds'' ''Configured upstream fetch TTL in seconds (0 = always fetch)'',
      IntCounter ''gitcacheproxy_evictions_total'' ''Idle mirrors evicted to keep the cache under the configured cap'',
      IntCounterVec ''gitcacheproxy_lfs_objects_total'' ''Cached git-LFS object lookups (hit/miss/error)'' [''result''],
      IntCounterVec ''gitcacheproxy_cache_outcome_total''
        ''info/refs operations by cache outcome (cloned/fetched/cached)'' [''outcome''],
      HistogramVec ''gitcacheproxy_upstream_duration_seconds'' ''Upstream clone/fetch duration in seconds''
        DURATION_BUCKETS [''op'', ''repo''],
      HistogramVec ''gitcacheproxy_serve_duration_seconds''
        ''Client serve duration in seconds (info/refs advertisement, upload-pack stream)''
        DURATION_BUCKETS [''kind'', ''repo'']]"

section \<open>Recording methods\<close>

text \<open>Calls into the \<open>prometheus\<close> crate. A histogram observation carries the elapsed clock time; its
  conversion to a floating-point number of seconds is not modelled.\<close>

datatype metric_call =
    CounterVecInc string "string list"
  | CounterInc string
  | GaugeSet string int
  | HistogramObserve string "string list" nat

definition record_request :: "RequestKind \<Rightarrow> Status \<Rightarrow> string \<Rightarrow> metric_call list" where
  "record_request kind result repo =
     [CounterVecInc ''gitcacheproxy_requests_total'' [RequestKind_as_str kind, Status_as_str result, repo]]"

definition record_upstream :: "UpstreamOp \<Rightarrow> Status \<Rightarrow> string \<Rightarrow> metric_call list" where
  "record_upstream op result repo =
     [CounterVecInc ''gitcacheproxy_upstream_ops_total'' [UpstreamOp_as_str op, Status_as_str result, repo]]"

definition set_cache_size :: "u64 \<Rightarrow> u64 \<Rightarrow> metric_call list" where
  "set_cache_size bytes mirrors =
     [GaugeSet ''gitcacheproxy_cache_bytes'' (as_i64 bytes),
      GaugeSet ''gitcacheproxy_cache_mirrors'' (as_i64 mirrors)]"

definition set_config :: "u64 \<Rightarrow> u64 \<Rightarrow> metric_call list" where
  "set_config cache_max_bytes fetch_ttl_seconds =
     [GaugeSet ''gitcacheproxy_cache_max_bytes'' (as_i64 cache_max_bytes),
      GaugeSet ''gitcacheproxy_fetch_ttl_seconds'' (as_i64 fetch_ttl_seconds)]"

definition record_eviction :: "metric_call list" where
  "record_eviction = [CounterInc ''gitcacheproxy_evictions_total'']"

definition record_lfs :: "LfsResult \<Rightarrow> metric_call list" where
  "record_lfs result = [CounterVecInc ''gitcacheproxy_lfs_objects_total'' [LfsResult_as_str result]]"

definition record_cache_outcome :: "CacheOutcome \<Rightarrow> metric_call list" where
  "record_cache_outcome outcome =
     (let label = (case outcome of Cloned \<Rightarrow> ''cloned'' | Fetched \<Rightarrow> ''fetched'' | Cached \<Rightarrow> ''cached'')
      in [CounterVecInc ''gitcacheproxy_cache_outcome_total'' [label]])"

definition observe_upstream :: "UpstreamOp \<Rightarrow> string \<Rightarrow> nat \<Rightarrow> metric_call list" where
  "observe_upstream op repo elapsed =
     [HistogramObserve ''gitcacheproxy_upstream_duration_seconds'' [UpstreamOp_as_str op, repo] elapsed]"

definition observe_serve :: "ServeKind \<Rightarrow> string \<Rightarrow> nat \<Rightarrow> metric_call list" where
  "observe_serve kind repo elapsed =
     [HistogramObserve ''gitcacheproxy_serve_duration_seconds'' [ServeKind_as_str kind, repo] elapsed]"

section \<open>The calls fit the registered families\<close>

fun call_fits :: "metric_call \<Rightarrow> metric_desc \<Rightarrow> bool" where
  "call_fits (CounterVecInc n vs) (IntCounterVec m h ls) = (n = m \<and> length vs = length ls)"
| "call_fits (CounterInc n) (IntCounter m h) = (n = m)"
| "call_fits (GaugeSet n v) (IntGauge m h) = (n = m)"
| "call_fits (HistogramObserve n vs t) (HistogramVec m h bs ls) = (n = m \<and> length vs = length ls)"
| "call_fits _ _ = False"

definition call_ok :: "metric_call \<Rightarrow> bool" where
  "call_ok c \<longleftrightarrow> list_ex (call_fits c) Metrics_new"

lemmas recording_defs =
  record_request_def record_upstream_def set_cache_size_def set_config_def record_eviction_def
  record_lfs_def record_cache_outcome_def observe_upstream_def observe_serve_def

lemma calls_ok:
  "list_all call_ok (record_request k r repo)" "list_all call_ok (record_upstream u r repo)"
  "list_all call_ok (set_cache_size b m)" "list_all call_ok (set_config b m)" "list_all call_ok record_eviction"
  "list_all call_ok (record_lfs l)" "list_all call_ok (record_cache_outcome co)"
  "list_all call_ok (observe_upstream u repo t)" "list_all call_ok (observe_serve s repo t)"
  by (simp_all add: recording_defs call_ok_def Metrics_new_def Let_def)

text \<open>What \<open>Metrics::new\<close> has to establish for its \<open>expect\<close>s: the package refuses a second family of the same name and a
  histogram whose buckets do not increase.\<close>

definition registrable :: "metric_desc list \<Rightarrow> bool" where
  "registrable ds \<longleftrightarrow> distinct (map desc_name ds) \<and>
     list_all (\<lambda>d. case d of HistogramVec n h bs ls \<Rightarrow> sorted_wrt (<) bs | _ \<Rightarrow> True) ds"

lemma Metrics_new_registrable: "registrable Metrics_new"
  by (simp add: registrable_def Metrics_new_def DURATION_BUCKETS_def)

text \<open>The cardinality discipline: a request or upstream counter carries a repository name only with the
  result \<open>ok\<close>; every other result is recorded under the label \<open>-\<close>.\<close>

definition label_disciplined :: "metric_call \<Rightarrow> bool" where
  "label_disciplined c \<longleftrightarrow>
     (case c of
        CounterVecInc n [k, res, repo] \<Rightarrow> repo = ''-'' \<or> res = ''ok''
      | _ \<Rightarrow> True)"

lemma record_request_disciplined:
  "(\<forall>c\<in>set (record_request k r repo). label_disciplined c) \<longleftrightarrow> repo = ''-'' \<or> r = Ok"
  by (cases r) (auto simp: record_request_def label_disciplined_def)

lemma record_upstream_disciplined:
  "(\<forall>c\<in>set (record_upstream k r repo). label_disciplined c) \<longleftrightarrow> repo = ''-'' \<or> r = Ok"
  by (cases r) (auto simp: record_upstream_def label_disciplined_def)

lemma other_calls_disciplined:
  "c \<in> set (set_cache_size b m) \<union> set (set_config b m) \<union> set record_eviction \<union> set (record_lfs l) \<union>
       set (record_cache_outcome co) \<union> set (observe_upstream u repo t) \<union> set (observe_serve s repo t) \<Longrightarrow>
     label_disciplined c"
  by (auto simp: recording_defs label_disciplined_def Let_def)

section \<open>Properties\<close>

text \<open>C37: Recording never panics. The eleven families are registered under pairwise different names
  (a repeated name would make \<open>expect\<close> panic in \<open>Metrics::new\<close>), and every call any recording method
  makes names a registered family of its own kind with that family's number of label values (a
  different number would make \<open>with_label_values\<close> panic).\<close>

theorem recording_total:
  "registrable Metrics_new \<and>
   list_all call_ok
     (record_request k r repo @ record_upstream u r repo @ set_cache_size b m @ set_config b m @
      record_eviction @ record_lfs l @ record_cache_outcome co @ observe_upstream u repo t @
      observe_serve s repo t)"
proof
  show "registrable Metrics_new" by (rule Metrics_new_registrable)
  show "list_all call_ok
     (record_request k r repo @ record_upstream u r repo @ set_cache_size b m @ set_config b m @
      record_eviction @ record_lfs l @ record_cache_outcome co @ observe_upstream u repo t @
      observe_serve s repo t)"
    by (simp add: calls_ok)
qed

text \<open>C12: The gauges are exact below \<open>2\<^sup>6\<^sup>3\<close>. The cache-size and configuration gauges show the values the
  program holds as long as they are below \<open>2\<^sup>6\<^sup>3\<close>; the saturated cap of \<open>u64::MAX\<close> bytes, which
  \<open>main\<close> computes for a very large \<open>--cache-max-mb\<close>, is published as \<open>-1\<close>.\<close>

theorem gauges_exact:
  "(unat b < 2 ^ 63 \<and> unat m < 2 ^ 63 \<longrightarrow>
      set_cache_size b m =
        [GaugeSet ''gitcacheproxy_cache_bytes'' (int (unat b)),
         GaugeSet ''gitcacheproxy_cache_mirrors'' (int (unat m))] \<and>
      set_config b m =
        [GaugeSet ''gitcacheproxy_cache_max_bytes'' (int (unat b)),
         GaugeSet ''gitcacheproxy_fetch_ttl_seconds'' (int (unat m))]) \<and>
   set_config (saturating_mul (2 ^ 44) (1024 * 1024)) m =
     [GaugeSet ''gitcacheproxy_cache_max_bytes'' (- 1),
      GaugeSet ''gitcacheproxy_fetch_ttl_seconds'' (as_i64 m)]"
proof (intro conjI impI)
  assume "unat b < 2 ^ 63 \<and> unat m < 2 ^ 63"
  then show "set_cache_size b m =
        [GaugeSet ''gitcacheproxy_cache_bytes'' (int (unat b)),
         GaugeSet ''gitcacheproxy_cache_mirrors'' (int (unat m))]"
    and "set_config b m =
        [GaugeSet ''gitcacheproxy_cache_max_bytes'' (int (unat b)),
         GaugeSet ''gitcacheproxy_fetch_ttl_seconds'' (int (unat m))]"
    by (simp_all only: set_cache_size_def set_config_def as_i64_small)
next
  have "saturating_mul (2 ^ 44) (1024 * 1024) = - 1"
    by (simp add: saturating_mul_def)
  then show "set_config (saturating_mul (2 ^ 44) (1024 * 1024)) m =
     [GaugeSet ''gitcacheproxy_cache_max_bytes'' (- 1),
      GaugeSet ''gitcacheproxy_fetch_ttl_seconds'' (as_i64 m)]"
    by (simp add: set_config_def as_i64_def)
qed

theorem gauges_exact_witness:
  "unat (5 :: u64) < 2 ^ 63 \<and> unat (2 :: u64) < 2 ^ 63 \<and>
   set_cache_size 5 2 =
     [GaugeSet ''gitcacheproxy_cache_bytes'' 5, GaugeSet ''gitcacheproxy_cache_mirrors'' 2]"
  using gauges_exact[of 5 2] by simp

end
