(* ===== verification/FileSystem.thy ===== *)
theory FileSystem
  imports Repo Metrics
begin

text \<open>
  The part of \<open>std::fs\<close> (and of its asynchronous wrapper \<open>tokio::fs\<close>) the program uses, the world its
  operations run in, and the combinators for fallible operations.

  A file system is a list of entries, each a path (its components) with a directory or a file (its
  bytes and modification time); the order of the list is the order in which \<open>read_dir\<close> lists a
  directory. \<open>deny\<close> holds the paths the operating system refuses to examine. Symbolic links are not
  modelled: no operation of the program creates one.

  A world has the file system, the number of external actions performed so far, and the trace of
  events in the order in which they happened. Each modifying system call is one external action;
  the environment may make the \<open>n\<close>-th action fail (\<open>fault\<close>), and a recursive removal that fails may have
  removed any part of the tree (\<open>fault_keeps\<close>).
\<close>

section \<open>File systems\<close>

type_synonym fpath = "component list"

datatype node = Dir | File (content: string) (mtime: nat)

record fs =
  entries :: "(fpath \<times> node) list"
  deny :: "fpath list"

datatype io_error = NotFound | OtherIo

definition fs_lookup :: "fs \<Rightarrow> fpath \<Rightarrow> node option" where
  "fs_lookup f p = map_of (entries f) p"

text \<open>\<open>fs::metadata\<close> and \<open>fs::symlink_metadata\<close>.\<close>

definition fs_stat :: "fs \<Rightarrow> fpath \<Rightarrow> io_error + node" where
  "fs_stat f p =
     (if p \<in> set (deny f) then Inl OtherIo
      else case fs_lookup f p of None \<Rightarrow> Inl NotFound | Some n \<Rightarrow> Inr n)"

text \<open>\<open>Path::exists\<close>, \<open>Path::is_file\<close> and \<open>Path::is_dir\<close>: false when the metadata cannot be read.\<close>

definition fs_exists :: "fs \<Rightarrow> fpath \<Rightarrow> bool" where
  "fs_exists f p = (case fs_stat f p of Inl _ \<Rightarrow> False | Inr _ \<Rightarrow> True)"

definition fs_is_file :: "fs \<Rightarrow> fpath \<Rightarrow> bool" where
  "fs_is_file f p = (case fs_stat f p of Inr (File _ _) \<Rightarrow> True | _ \<Rightarrow> False)"

definition fs_is_dir :: "fs \<Rightarrow> fpath \<Rightarrow> bool" where
  "fs_is_dir f p = (case fs_stat f p of Inr Dir \<Rightarrow> True | _ \<Rightarrow> False)"

text \<open>The names in a directory: the last component of every entry one level below it.\<close>

fun child_name :: "fpath \<Rightarrow> fpath \<Rightarrow> string option" where
  "child_name [] [Normal x] = Some x"
| "child_name (d # ds) (q # qs) = (if d = q then child_name ds qs else None)"
| "child_name _ _ = None"

definition child_names :: "fs \<Rightarrow> fpath \<Rightarrow> string list" where
  "child_names f d = remdups (List.map_filter (\<lambda>(q, n). child_name d q) (entries f))"

definition fs_read_dir :: "fs \<Rightarrow> fpath \<Rightarrow> io_error + string list" where
  "fs_read_dir f d =
     (case fs_stat f d of
        Inl e \<Rightarrow> Inl e
      | Inr Dir \<Rightarrow> Inr (child_names f d)
      | Inr (File _ _) \<Rightarrow> Inl OtherIo)"

subsection \<open>Modifying operations\<close>

text \<open>\<open>fs_put\<close> binds a path, replacing what was bound to it; the entry becomes the last of its directory.\<close>

definition fs_put :: "fpath \<Rightarrow> node \<Rightarrow> fs \<Rightarrow> fs" where
  "fs_put p n f = f\<lparr>entries := filter (\<lambda>(q, _). q \<noteq> p) (entries f) @ [(p, n)]\<rparr>"

text \<open>\<open>fs_remove_at\<close> removes one entry. \<open>fs_remove_under\<close> removes a tree, bottom up: where an entry is kept,
  so are the directories it lies in.\<close>

definition fs_remove_at :: "fpath \<Rightarrow> fs \<Rightarrow> fs" where
  "fs_remove_at p f = f\<lparr>entries := filter (\<lambda>(q, _). q \<noteq> p) (entries f)\<rparr>"

definition fs_kept :: "(fpath \<Rightarrow> bool) \<Rightarrow> fs \<Rightarrow> fpath \<Rightarrow> bool" where
  "fs_kept keep f q \<longleftrightarrow> list_ex (\<lambda>(r, _). prefix q r \<and> keep r) (entries f)"

definition fs_remove_under :: "fpath \<Rightarrow> (fpath \<Rightarrow> bool) \<Rightarrow> fs \<Rightarrow> fs" where
  "fs_remove_under p keep f =
     f\<lparr>entries := filter (\<lambda>(q, _). \<not> prefix p q \<or> fs_kept keep f q) (entries f)\<rparr>"

definition fs_move :: "fpath \<Rightarrow> fpath \<Rightarrow> fs \<Rightarrow> fs" where
  "fs_move p q f =
     f\<lparr>entries :=
        filter (\<lambda>(r, _). \<not> prefix p r \<and> \<not> prefix q r) (entries f) @
        map (\<lambda>(r, n). (q @ drop (length p) r, n)) (filter (\<lambda>(r, _). prefix p r) (entries f))\<rparr>"

definition fs_remove_dir_all :: "fpath \<Rightarrow> fs \<Rightarrow> (io_error + unit) \<times> fs" where
  "fs_remove_dir_all p f =
     (case fs_lookup f p of
        None \<Rightarrow> (Inl NotFound, f)
      | Some (File _ _) \<Rightarrow> (Inl OtherIo, f)
      | Some Dir \<Rightarrow> (Inr (), fs_remove_under p (\<lambda>_. False) f))"

definition fs_remove_file :: "fpath \<Rightarrow> fs \<Rightarrow> (io_error + unit) \<times> fs" where
  "fs_remove_file p f =
     (case fs_lookup f p of
        None \<Rightarrow> (Inl NotFound, f)
      | Some Dir \<Rightarrow> (Inl OtherIo, f)
      | Some (File _ _) \<Rightarrow> (Inr (), fs_remove_at p f))"

fun fs_create_dirs :: "fpath list \<Rightarrow> fs \<Rightarrow> (io_error + unit) \<times> fs" where
  "fs_create_dirs [] f = (Inr (), f)"
| "fs_create_dirs (p # ps) f =
     (case fs_lookup f p of
        Some Dir \<Rightarrow> fs_create_dirs ps f
      | Some (File _ _) \<Rightarrow> (Inl OtherIo, f)
      | None \<Rightarrow> fs_create_dirs ps (fs_put p Dir f))"

definition fs_create_dir_all :: "fpath \<Rightarrow> fs \<Rightarrow> (io_error + unit) \<times> fs" where
  "fs_create_dir_all p f = fs_create_dirs (filter (\<lambda>q. q \<noteq> []) (prefixes p)) f"

text \<open>\<open>rename(2)\<close>: the source must exist; a directory may only replace an empty directory and a file only
  a file; a directory cannot be moved below itself.\<close>

definition fs_rename :: "fpath \<Rightarrow> fpath \<Rightarrow> fs \<Rightarrow> (io_error + unit) \<times> fs" where
  "fs_rename p q f =
     (case fs_lookup f p of
        None \<Rightarrow> (Inl NotFound, f)
      | Some n \<Rightarrow>
          if q \<noteq> [] \<and> butlast q \<noteq> [] \<and> fs_lookup f (butlast q) \<noteq> Some Dir then (Inl NotFound, f)
          else if p = q then (Inr (), f)
          else if prefix p q then (Inl OtherIo, f)
          else (case (n, fs_lookup f q) of
                  (_, None) \<Rightarrow> (Inr (), fs_move p q f)
                | (File _ _, Some (File _ _)) \<Rightarrow> (Inr (), fs_move p q f)
                | (Dir, Some Dir) \<Rightarrow>
                    if child_names f q = [] then (Inr (), fs_move p q f) else (Inl OtherIo, f)
                | _ \<Rightarrow> (Inl OtherIo, f)))"

text \<open>\<open>fs::write\<close>: creates or truncates a file in an existing directory.\<close>

definition fs_write :: "fpath \<Rightarrow> string \<Rightarrow> nat \<Rightarrow> fs \<Rightarrow> (io_error + unit) \<times> fs" where
  "fs_write p bytes now f =
     (if butlast p \<noteq> [] \<and> fs_lookup f (butlast p) \<noteq> Some Dir then (Inl NotFound, f)
      else if fs_lookup f p = Some Dir then (Inl OtherIo, f)
      else (Inr (), fs_put p (File bytes now) f))"

section \<open>Lookup laws\<close>

lemma map_of_filter_fst:
  "map_of (filter (\<lambda>(q, _). P q) xs) q = (if P q then map_of xs q else None)"
  by (induction xs) auto

lemma fs_lookup_remove_under:
  "fs_lookup (fs_remove_under p keep f) q =
     (if prefix p q \<and> \<not> fs_kept keep f q then None else fs_lookup f q)"
  using map_of_filter_fst[of "\<lambda>q. \<not> prefix p q \<or> fs_kept keep f q" "entries f" q]
  by (auto simp: fs_lookup_def fs_remove_under_def)

lemma fs_kept_False [simp]: "\<not> fs_kept (\<lambda>_. False) f q"
  by (auto simp: fs_kept_def list_ex_iff)

lemma fs_lookup_remove_at: "fs_lookup (fs_remove_at p f) q = (if q = p then None else fs_lookup f q)"
  using map_of_filter_fst[of "\<lambda>q. q \<noteq> p" "entries f" q] by (simp add: fs_lookup_def fs_remove_at_def)

lemma fs_lookup_put: "fs_lookup (fs_put p n f) q = (if q = p then Some n else fs_lookup f q)"
proof -
  have "map_of (filter (\<lambda>(q, _). q \<noteq> p) xs @ [(p, n)]) q = (if q = p then Some n else map_of xs q)"
    for xs by (induction xs) auto
  then show ?thesis by (simp add: fs_lookup_def fs_put_def)
qed

lemma fs_lookup_move:
  assumes "\<not> prefix p q" "\<not> prefix q p"
  shows "fs_lookup (fs_move p q f) r =
    (if prefix q r then fs_lookup f (p @ drop (length q) r)
     else if prefix p r then None
     else fs_lookup f r)"
proof -
  have moved: "map_of (map (\<lambda>(r, n). (q @ drop (length p) r, n)) (filter (\<lambda>(r, _). prefix p r) xs)) r =
      (if prefix q r then map_of xs (p @ drop (length q) r) else None)" for xs :: "(fpath \<times> node) list"
  proof (induction xs)
    case (Cons x xs)
    obtain s n where x: "x = (s, n)" by (cases x)
    show ?case
    proof (cases "prefix p s")
      case True
      then have "q @ drop (length p) s = r \<longleftrightarrow> prefix q r \<and> s = p @ drop (length q) r"
        by (auto simp: prefix_def)
      then show ?thesis using Cons x True by auto
    next
      case False
      then have "s \<noteq> p @ drop (length q) r" by (auto simp: prefix_def)
      then show ?thesis using Cons x False by auto
    qed
  qed simp
  have "map_of (filter (\<lambda>(r, _). \<not> prefix p r \<and> \<not> prefix q r) xs) r =
      (if \<not> prefix p r \<and> \<not> prefix q r then map_of xs r else None)" for xs :: "(fpath \<times> node) list"
    by (rule map_of_filter_fst)
  then show ?thesis
    by (auto simp: fs_lookup_def fs_move_def map_of_append map_add_def moved split: option.splits)
qed

lemma fs_deny_simps [simp]:
  "deny (fs_remove_under p keep f) = deny f" "deny (fs_put p n f) = deny f" "deny (fs_move p q f) = deny f"
  "deny (fs_remove_at p f) = deny f"
  by (simp_all add: fs_remove_under_def fs_put_def fs_move_def fs_remove_at_def)

lemma fs_exists_iff: "fs_exists f p \<longleftrightarrow> p \<notin> set (deny f) \<and> fs_lookup f p \<noteq> None"
  by (auto simp: fs_exists_def fs_stat_def split: option.splits)

lemma fs_is_file_exists: "fs_is_file f p \<Longrightarrow> fs_exists f p"
  by (auto simp: fs_is_file_def fs_exists_def split: sum.splits)

lemma child_name_Some: "child_name d q = Some x \<longleftrightarrow> q = d @ [Normal x]"
  by (induction d q rule: child_name.induct) auto

lemma map_filter_set: "set (List.map_filter f xs) = {y. \<exists>x\<in>set xs. f x = Some y}"
  by (induction xs) (auto simp: List.map_filter_simps split: option.splits)

lemma child_names_iff: "x \<in> set (child_names f d) \<longleftrightarrow> fs_lookup f (d @ [Normal x]) \<noteq> None"
  by (force simp: child_names_def map_filter_set child_name_Some fs_lookup_def map_of_eq_None_iff)

lemma distinct_child_names [simp]: "distinct (child_names f d)"
  by (simp add: child_names_def)

text \<open>A failed modifying operation leaves the file system as it was, except directory creation, which
  may have created some of the ancestors.\<close>

lemma fs_remove_dir_all_Inl: "fs_remove_dir_all p f = (Inl e, f') \<Longrightarrow> f' = f"
  by (auto simp: fs_remove_dir_all_def split: option.splits node.splits)

lemma fs_rename_Inl: "fs_rename p q f = (Inl e, f') \<Longrightarrow> f' = f"
  by (auto simp: fs_rename_def split: option.splits node.splits if_splits)

lemma fs_rename_Inr:
  assumes "fs_rename p q f = (Inr u, f')"
  shows "fs_lookup f p \<noteq> None \<and> (f' = f \<and> p = q \<or> \<not> prefix p q \<and> f' = fs_move p q f)"
  using assms by (auto simp: fs_rename_def split: option.splits node.splits if_splits)

lemma fs_create_dirs_mono:
  "fs_create_dirs ps f = (r, f') \<Longrightarrow> fs_lookup f q \<noteq> None \<Longrightarrow> fs_lookup f' q = fs_lookup f q"
proof (induction ps arbitrary: f)
  case (Cons p ps)
  show ?case
  proof (cases "fs_lookup f p")
    case None
    then have "fs_create_dirs ps (fs_put p Dir f) = (r, f')" using Cons.prems by simp
    moreover have "fs_lookup (fs_put p Dir f) q = fs_lookup f q"
      using None Cons.prems(2) by (auto simp: fs_lookup_put)
    ultimately show ?thesis using Cons.IH Cons.prems(2) by metis
  next
    case (Some n)
    then show ?thesis using Cons by (cases n) auto
  qed
qed simp

section \<open>Worlds and fallible operations\<close>

text \<open>The exit status of a child process: \<open>status.code()\<close> is \<open>None\<close> when a signal ended it.\<close>

datatype exit_status = Exited nat | Signaled nat

text \<open>An \<open>anyhow::Error\<close>: the message of a \<open>bail!\<close>, an input/output error with its context, or a panic.
  The final error of \<open>run_upstream\<close> is kept as the values its message is formatted from: operation,
  repository, number of attempts, reason and status.\<close>

datatype error =
    Bail string
  | IoFail string io_error
  | UpstreamFailed string string nat "string option" exit_status
  | Panic string

definition exit_success :: "exit_status \<Rightarrow> bool" where
  "exit_success s \<longleftrightarrow> s = Exited 0"

definition exit_code :: "exit_status \<Rightarrow> nat option" where
  "exit_code s = (case s of Exited n \<Rightarrow> Some n | Signaled _ \<Rightarrow> None)"

text \<open>A \<open>Command\<close> as it is when the program spawns it.\<close>

record git_cmd =
  program :: string
  args :: "string list"
  env :: "(string \<times> string) list"
  cwd :: "string option"
  stdin :: string

text \<open>What a finished child process leaves behind: how writing to its standard input and waiting for it
  ended, what reading its standard error returned (chunk by chunk) and its standard output.\<close>

record git_out =
  stdin_write :: "io_error + unit"
  out_status :: "io_error + exit_status"
  stderr_reads :: "(io_error + string) list"
  stdout :: string

datatype io_event =
    Spawned git_cmd git_out
  | Slept nat
  | MetricCall metric_call

text \<open>
  What the program does not control: which external actions fail, what the monotonic clock shows, in
  which order a \<open>HashSet\<close> yields its elements, and the \<open>git\<close> binary, a function of the number of the action,
  the command and the file system to the output and the file system it leaves.
\<close>

record io_env =
  fault :: "nat \<Rightarrow> bool"
  hash_iter :: "string set \<Rightarrow> string list"
  fault_keeps :: "nat \<Rightarrow> fpath \<Rightarrow> bool"
  clock :: "nat \<Rightarrow> nat"
  git :: "nat \<Rightarrow> git_cmd \<Rightarrow> fs \<Rightarrow> git_out \<times> fs"

record io_world =
  w_fs :: fs
  w_tick :: nat
  w_trace :: "io_event list"

definition emit :: "io_event list \<Rightarrow> ('z) io_world_scheme \<Rightarrow> ('z) io_world_scheme" where
  "emit es w = w\<lparr>w_trace := w_trace w @ es\<rparr>"

definition metric :: "metric_call list \<Rightarrow> ('z) io_world_scheme \<Rightarrow> ('z) io_world_scheme" where
  "metric ms w = emit (map MetricCall ms) w"

text \<open>One modifying system call.\<close>

definition syscall ::
  "('e) io_env_scheme \<Rightarrow> (fs \<Rightarrow> (io_error + unit) \<times> fs) \<Rightarrow> ('z) io_world_scheme \<Rightarrow>
     (io_error + unit) \<times> ('z) io_world_scheme" where
  "syscall E op w =
     (if fault E (w_tick w) then (Inl OtherIo, w\<lparr>w_tick := Suc (w_tick w)\<rparr>)
      else (case op (w_fs w) of (r, f) \<Rightarrow> (r, w\<lparr>w_fs := f, w_tick := Suc (w_tick w)\<rparr>)))"

definition io_remove_dir_all ::
  "('e) io_env_scheme \<Rightarrow> string \<Rightarrow> ('z) io_world_scheme \<Rightarrow> (io_error + unit) \<times> ('z) io_world_scheme" where
  "io_remove_dir_all E p w =
     (if fault E (w_tick w)
      then (Inl OtherIo,
            w\<lparr>w_fs := fs_remove_under (components p) (fault_keeps E (w_tick w)) (w_fs w),
              w_tick := Suc (w_tick w)\<rparr>)
      else syscall E (fs_remove_dir_all (components p)) w)"

abbreviation io_rename where
  "io_rename E p q \<equiv> syscall E (fs_rename (components p) (components q))"

abbreviation io_create_dir_all where
  "io_create_dir_all E p \<equiv> syscall E (fs_create_dir_all (components p))"

abbreviation io_remove_file where
  "io_remove_file E p \<equiv> syscall E (fs_remove_file (components p))"

text \<open>Spawning \<open>git\<close> and waiting for it.\<close>

definition run_git ::
  "('e) io_env_scheme \<Rightarrow> git_cmd \<Rightarrow> ('z) io_world_scheme \<Rightarrow> (io_error + git_out) \<times> ('z) io_world_scheme" where
  "run_git E cmd w =
     (if fault E (w_tick w) then (Inl OtherIo, w\<lparr>w_tick := Suc (w_tick w)\<rparr>)
      else
        (case git E (w_tick w) cmd (w_fs w) of
           (out, f) \<Rightarrow> (Inr out, emit [Spawned cmd out] (w\<lparr>w_fs := f, w_tick := Suc (w_tick w)\<rparr>))))"

text \<open>The \<open>?\<close> operator: \<open>io_bind\<close> goes on with the value or returns the error; \<open>context\<close> turns an
  input/output error into an \<open>anyhow\<close> error.\<close>

definition io_bind ::
  "('w \<Rightarrow> ('e + 'a) \<times> 'w) \<Rightarrow> ('a \<Rightarrow> 'w \<Rightarrow> ('e + 'b) \<times> 'w) \<Rightarrow> 'w \<Rightarrow> ('e + 'b) \<times> 'w" where
  "io_bind m k w = (case m w of (Inl e, w') \<Rightarrow> (Inl e, w') | (Inr a, w') \<Rightarrow> k a w')"

definition io_context ::
  "string \<Rightarrow> ('w \<Rightarrow> (io_error + 'a) \<times> 'w) \<Rightarrow> 'w \<Rightarrow> (error + 'a) \<times> 'w" where
  "io_context msg m w = (case m w of (Inl e, w') \<Rightarrow> (Inl (IoFail msg e), w') | (Inr a, w') \<Rightarrow> (Inr a, w'))"

definition io_ok :: "'a \<Rightarrow> 'w \<Rightarrow> ('e + 'a) \<times> 'w" where
  "io_ok a w = (Inr a, w)"

text \<open>\<open>let _ = ...\<close>: the result is ignored.\<close>

definition io_ignore :: "('w \<Rightarrow> ('e + 'a) \<times> 'w) \<Rightarrow> 'w \<Rightarrow> 'w" where
  "io_ignore m w = snd (m w)"

lemma io_bind_Inr:
  "io_bind m k w = (Inr b, w'') \<longleftrightarrow> (\<exists>a w'. m w = (Inr a, w') \<and> k a w' = (Inr b, w''))"
  by (auto simp: io_bind_def split: prod.splits sum.splits)

lemma io_bind_Inl:
  "io_bind m k w = (Inl e, w'') \<longleftrightarrow>
     m w = (Inl e, w'') \<or> (\<exists>a w'. m w = (Inr a, w') \<and> k a w' = (Inl e, w''))"
  by (auto simp: io_bind_def split: prod.splits sum.splits)

lemma io_context_Inr: "io_context msg m w = (Inr a, w') \<longleftrightarrow> m w = (Inr a, w')"
  by (auto simp: io_context_def split: prod.splits sum.splits)

lemma io_context_Inl:
  "io_context msg m w = (Inl e, w') \<longleftrightarrow> (\<exists>e'. e = IoFail msg e' \<and> m w = (Inl e', w'))"
  by (auto simp: io_context_def split: prod.splits sum.splits)

lemma io_ok_eq [simp]: "io_ok a w = (r, w') \<longleftrightarrow> r = Inr a \<and> w' = w"
  by (auto simp: io_ok_def)

lemmas io_cases = io_bind_Inr io_bind_Inl io_context_Inr io_context_Inl

lemma emit_simps [simp]:
  "w_fs (emit es w) = w_fs w" "w_tick (emit es w) = w_tick w" "w_trace (emit es w) = w_trace w @ es"
  "emit es (emit es' w) = emit (es' @ es) w"
  by (simp_all add: emit_def)

lemma metric_simps [simp]:
  "w_fs (metric ms w) = w_fs w" "w_tick (metric ms w) = w_tick w"
  "w_trace (metric ms w) = w_trace w @ map MetricCall ms"
  by (simp_all add: metric_def)

lemma syscall_trace: "syscall E op w = (r, w') \<Longrightarrow> w_trace w' = w_trace w"
  by (auto simp: syscall_def split: if_splits prod.splits)

lemma io_remove_dir_all_trace: "io_remove_dir_all E p w = (r, w') \<Longrightarrow> w_trace w' = w_trace w"
  by (auto simp: io_remove_dir_all_def split: if_splits dest: syscall_trace)

lemma syscall_Inr:
  "syscall E op w = (Inr u, w') \<Longrightarrow>
     \<not> fault E (w_tick w) \<and> op (w_fs w) = (Inr u, w_fs w') \<and> w' = w\<lparr>w_fs := w_fs w', w_tick := Suc (w_tick w)\<rparr>"
  by (auto simp: syscall_def split: if_splits prod.splits)

lemma syscall_Inl:
  "syscall E op w = (Inl e, w') \<Longrightarrow>
     w_fs w' = w_fs w \<and> e = OtherIo \<and> fault E (w_tick w) \<or> \<not> fault E (w_tick w) \<and> op (w_fs w) = (Inl e, w_fs w')"
  by (auto simp: syscall_def split: if_splits prod.splits)

lemma syscall_more:
  "syscall E op w = (r, w') \<Longrightarrow> w' = w\<lparr>w_fs := w_fs w', w_tick := Suc (w_tick w)\<rparr>"
  by (auto simp: syscall_def split: if_splits prod.splits)

section \<open>Well-formed trees and frames\<close>

text \<open>A file system is a tree: what contains an entry is a directory.\<close>

definition fs_wf :: "fs \<Rightarrow> bool" where
  "fs_wf f \<longleftrightarrow> (\<forall>q c. q \<noteq> [] \<and> fs_lookup f (q @ [c]) \<noteq> None \<longrightarrow> fs_lookup f q = Some Dir)"

text \<open>An executable check.\<close>

lemma fs_wfI:
  assumes "list_all (\<lambda>(q, _). length q \<le> 1 \<or> fs_lookup f (butlast q) = Some Dir) (entries f)"
  shows "fs_wf f"
  unfolding fs_wf_def
proof (intro allI impI)
  fix q c assume q: "q \<noteq> [] \<and> fs_lookup f (q @ [c]) \<noteq> None"
  then obtain n where "(q @ [c], n) \<in> set (entries f)" by (auto simp: fs_lookup_def dest: map_of_SomeD)
  then show "fs_lookup f q = Some Dir" using assms q by (force simp: list_all_iff)
qed

lemma fs_wf_ancestor:
  assumes "fs_wf f" "p \<noteq> []" "prefix p q" "fs_lookup f q \<noteq> None"
  shows "fs_lookup f p \<noteq> None"
  using assms(3,4)
proof (induction q rule: rev_induct)
  case (snoc c q)
  show ?case
  proof (cases "p = q @ [c]")
    case False
    then have "prefix p q" using snoc.prems(1) by simp
    then have "q \<noteq> []" using assms(2) by auto
    then have "fs_lookup f q = Some Dir" using assms(1) snoc.prems(2) unfolding fs_wf_def by blast
    then show ?thesis using snoc.IH \<open>prefix p q\<close> by simp
  qed (use snoc in simp)
qed simp

lemma fs_wf_below_None:
  "fs_wf f \<Longrightarrow> p \<noteq> [] \<Longrightarrow> fs_lookup f p = None \<Longrightarrow> prefix p q \<Longrightarrow> fs_lookup f q = None"
  using fs_wf_ancestor by blast

lemma fs_kept_parent: "fs_kept keep f (q @ [c]) \<Longrightarrow> fs_kept keep f q"
  unfolding fs_kept_def list_ex_iff by (auto dest: append_prefixD)

lemma fs_wf_remove_under: "fs_wf f \<Longrightarrow> fs_wf (fs_remove_under p keep f)"
  unfolding fs_wf_def fs_lookup_remove_under
  by (metis (no_types, lifting) fs_kept_parent prefix_snoc)

lemma fs_wf_remove_dir_all: "fs_wf f \<Longrightarrow> fs_remove_dir_all p f = (r, f') \<Longrightarrow> fs_wf f'"
  by (auto simp: fs_remove_dir_all_def fs_wf_remove_under split: option.splits node.splits)

lemma fs_wf_io_remove_dir_all: "fs_wf (w_fs w) \<Longrightarrow> io_remove_dir_all E p w = (r, w') \<Longrightarrow> fs_wf (w_fs w')"
  by (auto simp: io_remove_dir_all_def syscall_def fs_wf_remove_under
      split: if_splits prod.splits dest: fs_wf_remove_dir_all)

text \<open>Two file systems agree outside some trees.\<close>

definition same_outside :: "fpath list \<Rightarrow> fs \<Rightarrow> fs \<Rightarrow> bool" where
  "same_outside ps f f' \<longleftrightarrow>
     (\<forall>q. (\<forall>p\<in>set ps. \<not> prefix p q) \<longrightarrow> fs_lookup f' q = fs_lookup f q) \<and> deny f' = deny f"

lemma same_outside_refl [simp]: "same_outside ps f f"
  by (simp add: same_outside_def)

lemma same_outside_trans: "same_outside ps f g \<Longrightarrow> same_outside ps g h \<Longrightarrow> same_outside ps f h"
  by (simp add: same_outside_def)

lemma same_outside_mono: "same_outside ps f g \<Longrightarrow> set ps \<subseteq> set qs \<Longrightarrow> same_outside qs f g"
  by (auto simp: same_outside_def)

lemma same_outsideD:
  "same_outside ps f g \<Longrightarrow> \<forall>p\<in>set ps. \<not> prefix p q \<Longrightarrow> fs_lookup g q = fs_lookup f q"
  by (simp add: same_outside_def)

lemma same_outside_exists:
  "same_outside ps f g \<Longrightarrow> \<forall>p\<in>set ps. \<not> prefix p q \<Longrightarrow> fs_exists g q = fs_exists f q"
  by (simp add: same_outside_def fs_exists_iff)

lemma same_outside_remove_under: "same_outside [p] f (fs_remove_under p keep f)"
  by (simp add: same_outside_def fs_lookup_remove_under)

lemma same_outside_io_remove_dir_all:
  "io_remove_dir_all E p w = (r, w') \<Longrightarrow> same_outside [components p] (w_fs w) (w_fs w')"
  by (auto simp: io_remove_dir_all_def syscall_def fs_remove_dir_all_def same_outside_remove_under
      split: if_splits prod.splits option.splits node.splits)

lemma same_outside_rename:
  assumes "fs_rename p q f = (r, f')"
  shows "same_outside [p, q] f f'"
proof (cases r)
  case (Inl e)
  then show ?thesis using assms fs_rename_Inl by (metis same_outside_refl)
next
  case (Inr u)
  then consider "f' = f" | "\<not> prefix p q" "f' = fs_move p q f"
    using assms fs_rename_Inr by blast
  then show ?thesis
  proof cases
    case 2
    have "fs_lookup f' r = fs_lookup f r" if r: "\<not> prefix p r" "\<not> prefix q r" for r
    proof -
      have "map_of (map (\<lambda>(r, n). (q @ drop (length p) r, n)) xs) r = None" for xs :: "(fpath \<times> node) list"
        using r(2) by (auto simp: map_of_eq_None_iff prefix_def)
      moreover have "map_of (filter (\<lambda>(r, _). \<not> prefix p r \<and> \<not> prefix q r) (entries f)) r = map_of (entries f) r"
        using r map_of_filter_fst[of "\<lambda>r. \<not> prefix p r \<and> \<not> prefix q r" "entries f" r] by simp
      ultimately show ?thesis
        unfolding 2 fs_lookup_def fs_move_def by (simp add: map_add_def split: option.split)
    qed
    then show ?thesis using 2 by (simp add: same_outside_def)
  qed simp
qed

text \<open>After a successful removal, or when there was nothing to remove, nothing is left in the tree.\<close>

lemma io_remove_dir_all_gone:
  assumes "fs_wf (w_fs w)" "components p \<noteq> []"
    and "io_remove_dir_all E p w = (r, w')" "r = Inr () \<or> r = Inl NotFound"
    and "prefix (components p) q"
  shows "fs_lookup (w_fs w') q = None"
proof -
  have nf: "\<not> fault E (w_tick w)"
  proof
    assume "fault E (w_tick w)"
    then have "r = Inl OtherIo" using assms(3) unfolding io_remove_dir_all_def by simp
    then show False using assms(4) by simp
  qed
  obtain r0 f0 where f0: "fs_remove_dir_all (components p) (w_fs w) = (r0, f0)" by force
  have "r = r0" "w' = w\<lparr>w_fs := f0, w_tick := Suc (w_tick w)\<rparr>"
    using assms(3) nf f0 unfolding io_remove_dir_all_def syscall_def by simp_all
  then have op: "fs_remove_dir_all (components p) (w_fs w) = (r, w_fs w')" using f0 by simp
  show ?thesis
  proof (cases "fs_lookup (w_fs w) (components p)")
    case None
    then have "w_fs w' = w_fs w" using op unfolding fs_remove_dir_all_def by simp
    then show ?thesis using fs_wf_below_None[OF assms(1,2) None assms(5)] by simp
  next
    case (Some n)
    have "n = Dir" using op assms(4) Some unfolding fs_remove_dir_all_def by (cases n) auto
    then have "w_fs w' = fs_remove_under (components p) (\<lambda>_. False) (w_fs w)"
      using op Some unfolding fs_remove_dir_all_def by simp
    then show ?thesis using assms(5) by (simp add: fs_lookup_remove_under)
  qed
qed

end
