(* ===== verification/Retry.thy ===== *)
theory Retry
  imports FileSystem
begin

text \<open>
  The upstream retry policy of \<^verbatim>\<open>src/src/git.rs\<close>: \<open>run_upstream\<close> with its bounded reading of the child's
  standard error, \<open>clean_staging\<close>, and the classification \<open>transient_upstream_error\<close>.

  The lemmas describe a run by what it leaves in the trace: the attempts, all but the last of which
  failed with an exit code and a transient diagnostic, separated by the delays 1, 2 and 4 seconds. From
  this follow the bounds on attempts and waiting, when an error is retried, and that a run that fails
  by its own verdict leaves no staging directory behind.
\<close>

definition UPSTREAM_RETRY_DELAYS :: "nat list" where
  "UPSTREAM_RETRY_DELAYS = [1, 2, 4]"

definition MAX_UPSTREAM_RETRIES :: nat where
  "MAX_UPSTREAM_RETRIES = length UPSTREAM_RETRY_DELAYS"

definition MAX_UPSTREAM_STDERR_BYTES :: nat where
  "MAX_UPSTREAM_STDERR_BYTES = 64 * 1024"

section \<open>Classification\<close>

definition permanent_messages :: "string list" where
  "permanent_messages =
     [''authentication failed'', ''repository not found'', ''could not read username'',
      ''certificate problem'', ''certificate verify failed'', ''certificate verification failed'',
      ''server certificate verification failed'', ''no space left on device'', ''permission denied'',
      ''read-only file system'', ''.lock'', ''returned error: 401'', ''returned error: 403'',
      ''returned error: 404'']"

definition transient_codes :: "nat list" where
  "transient_codes = [408, 429, 500, 502, 503, 504]"

definition tls_messages :: "string list" where
  "tls_messages =
     [''unexpected eof while reading'',
      ''gnutls_handshake() failed: the tls connection was non-properly terminated'',
      ''gnutls recv error (-110)'', ''ssl_error_syscall'']"

definition connection_messages :: "string list" where
  "connection_messages =
     [''connection reset'', ''connection timed out'', ''connection refused'', ''failed to connect to'',
      ''operation timed out'', ''connection timeout'', ''empty reply from server'', ''recv failure:'',
      ''send failure:'', ''curl 18 '', ''curl 28 '', ''curl 52 '', ''curl 55 '', ''curl 56 '', ''curl 92 '']"

definition dns_messages :: "string list" where
  "dns_messages =
     [''temporary failure in name resolution'', ''could not resolve host:'', ''could not resolve proxy:'']"

definition transient_upstream_error :: "string \<Rightarrow> string option" where
  "transient_upstream_error stderr_bytes =
     (let text = to_ascii_lowercase (from_utf8_lossy stderr_bytes) in
      if list_ex (contains text) permanent_messages then None
      else if list_ex (\<lambda>code. list_ex
                (\<lambda>line. ends_with (str_trim_end line) (''returned error: '' @ show_dec code))
                (str_lines text)) transient_codes
      then Some ''transient HTTP status''
      else if list_ex (contains text) tls_messages then Some ''TLS connection interrupted''
      else if list_ex (contains text) connection_messages
      then Some ''connection interrupted or timed out''
      else if list_ex (contains text) dns_messages then Some ''DNS resolution failed''
      else None)"

section \<open>Reading standard error\<close>

text \<open>The read loop: every chunk is appended and the tail cut back to the bound; a read of no bytes is
  the end, and a failed read is the error.\<close>

fun drain_stderr :: "(io_error + string) list \<Rightarrow> string \<Rightarrow> io_error + string" where
  "drain_stderr [] tail = Inr tail"
| "drain_stderr (Inl e # rs) tail = Inl e"
| "drain_stderr (Inr chunk # rs) tail =
     (if chunk = [] then Inr tail
      else let t = tail @ chunk in
        drain_stderr rs
          (if length t > MAX_UPSTREAM_STDERR_BYTES then drop (length t - MAX_UPSTREAM_STDERR_BYTES) t else t))"

section \<open>The retry loop\<close>

definition clean_staging ::
  "('e) io_env_scheme \<Rightarrow> string \<Rightarrow> ('z) io_world_scheme \<Rightarrow> (error + unit) \<times> ('z) io_world_scheme" where
  "clean_staging E path w =
     (case io_remove_dir_all E path w of
        (Inr _, w') \<Rightarrow> (Inr (), w')
      | (Inl NotFound, w') \<Rightarrow> (Inr (), w')
      | (Inl e, w') \<Rightarrow> (Inl (IoFail ''remove upstream clone staging directory'' e), w'))"

definition clean_staging_opt ::
  "('e) io_env_scheme \<Rightarrow> string option \<Rightarrow> ('z) io_world_scheme \<Rightarrow> (error + unit) \<times> ('z) io_world_scheme" where
  "clean_staging_opt E staging = (case staging of Some path \<Rightarrow> clean_staging E path | None \<Rightarrow> io_ok ())"

text \<open>The delay before the next attempt, when there is to be one: the failure is transient, the child
  was not killed by a signal, and the delays are not used up.\<close>

definition retry_delay :: "nat \<Rightarrow> string option \<Rightarrow> exit_status \<Rightarrow> nat option" where
  "retry_delay attempt reason status =
     (if reason \<noteq> None \<and> exit_code status \<noteq> None \<and> attempt < length UPSTREAM_RETRY_DELAYS
      then Some (UPSTREAM_RETRY_DELAYS ! attempt) else None)"

text \<open>The body of the \<open>for attempt in 0..=MAX_UPSTREAM_RETRIES\<close> loop: it returns from the function, or
  sleeps and continues.\<close>

datatype attempt_end = Return "error + unit" | Continue nat

definition upstream_attempt ::
  "('e) io_env_scheme \<Rightarrow> git_cmd \<Rightarrow> string \<Rightarrow> string \<Rightarrow> string option \<Rightarrow> nat \<Rightarrow> ('z) io_world_scheme \<Rightarrow>
     attempt_end \<times> ('z) io_world_scheme" where
  "upstream_attempt E cmd operation repo staging attempt w =
     (case clean_staging_opt E staging w of
        (Inl e, w1) \<Rightarrow> (Return (Inl e), w1)
      | (Inr _, w1) \<Rightarrow>
     (case run_git E cmd w1 of
        (Inl e, w2) \<Rightarrow> (Return (Inl (IoFail ''spawn upstream git'' e)), w2)
      | (Inr out, w2) \<Rightarrow>
     (case drain_stderr (stderr_reads out) [] of
        Inl e \<Rightarrow> (Return (Inl (IoFail ''read upstream git stderr'' e)), w2)
      | Inr tail \<Rightarrow>
     (case out_status out of
        Inl e \<Rightarrow> (Return (Inl (IoFail ''wait for upstream git'' e)), w2)
      | Inr status \<Rightarrow>
          if exit_success status then (Return (Inr ()), w2)
          else
     (case clean_staging_opt E staging w2 of
        (Inl e, w3) \<Rightarrow> (Return (Inl e), w3)
      | (Inr _, w3) \<Rightarrow>
          let reason = transient_upstream_error tail in
          (case retry_delay attempt reason status of
             Some delay \<Rightarrow> (Continue delay, emit [Slept delay] w3)
           | None \<Rightarrow> (Return (Inl (UpstreamFailed operation repo (attempt + 1) reason status)), w3)))))))"

text \<open>The loop from a given attempt on. Running past the last attempt is the \<open>unreachable!\<close> at its end.\<close>

function run_upstream_from ::
  "('e) io_env_scheme \<Rightarrow> git_cmd \<Rightarrow> string \<Rightarrow> string \<Rightarrow> string option \<Rightarrow> nat \<Rightarrow> ('z) io_world_scheme \<Rightarrow>
     (error + unit) \<times> ('z) io_world_scheme" where
  "run_upstream_from E cmd operation repo staging attempt w =
     (if attempt > MAX_UPSTREAM_RETRIES
      then (Inl (Panic ''final attempt returns an error or succeeds''), w)
      else (case upstream_attempt E cmd operation repo staging attempt w of
              (Return r, w') \<Rightarrow> (r, w')
            | (Continue delay, w') \<Rightarrow> run_upstream_from E cmd operation repo staging (attempt + 1) w'))"
  by pat_completeness auto
termination
  by (relation "measure (\<lambda>(E, cmd, operation, repo, staging, attempt, w). Suc MAX_UPSTREAM_RETRIES - attempt)")
    auto

declare run_upstream_from.simps [simp del]

definition run_upstream ::
  "('e) io_env_scheme \<Rightarrow> git_cmd \<Rightarrow> string \<Rightarrow> string \<Rightarrow> string option \<Rightarrow> ('z) io_world_scheme \<Rightarrow>
     (error + unit) \<times> ('z) io_world_scheme" where
  "run_upstream E cmd operation repo staging w = run_upstream_from E cmd operation repo staging 0 w"

section \<open>What is read\<close>

definition read_ok :: "(io_error + string) list \<Rightarrow> bool" where
  "read_ok rs \<longleftrightarrow> (\<forall>r\<in>set rs. \<exists>c. r = Inr c \<and> c \<noteq> [])"

definition last_bytes :: "nat \<Rightarrow> string \<Rightarrow> string" where
  "last_bytes n s = drop (length s - n) s"

lemma last_bytes_append: "last_bytes n (last_bytes n s @ t) = last_bytes n (s @ t)"
proof -
  have "length s + length t - (length s - n + n) + (length s - n) = length s + length t - n"
    if "n < length s" using that by arith
  then show ?thesis by (cases "n < length s") (auto simp: last_bytes_def drop_append)
qed

lemma drain_stderr_step:
  "(if length t > n then drop (length t - n) t else t) = last_bytes n t"
  by (simp add: last_bytes_def)

lemma drain_stderr_last_bytes:
  assumes "read_ok rs" "last_bytes MAX_UPSTREAM_STDERR_BYTES t = t"
  shows "drain_stderr rs t = Inr (last_bytes MAX_UPSTREAM_STDERR_BYTES (t @ concat (map projr rs)))"
  using assms
proof (induction rs arbitrary: t)
  case Nil
  then show ?case by simp
next
  case (Cons r rs)
  then obtain c where r: "r = Inr c" "c \<noteq> []" by (auto simp: read_ok_def)
  let ?n = MAX_UPSTREAM_STDERR_BYTES
  have "last_bytes ?n (last_bytes ?n (t @ c)) = last_bytes ?n (t @ c)"
    using last_bytes_append[of ?n "t @ c" "[]"] by simp
  then have "drain_stderr rs (last_bytes ?n (t @ c))
      = Inr (last_bytes ?n (last_bytes ?n (t @ c) @ concat (map projr rs)))"
    using Cons by (simp add: read_ok_def)
  then show ?case
    using r by (simp add: drain_stderr_step last_bytes_append Let_def)
qed

section \<open>The retry policy as a specification\<close>

text \<open>
  \<open>upstream_run cmd op repo attempt es r\<close>: a run that starts with the given attempt may emit the events
  \<open>es\<close> and end with \<open>r\<close>. An attempt ends the run when it succeeds, when an input/output error occurs
  around it, or when its failure is not to be retried.
\<close>

inductive upstream_run ::
  "git_cmd \<Rightarrow> string \<Rightarrow> string \<Rightarrow> nat \<Rightarrow> io_event list \<Rightarrow> error + unit \<Rightarrow> bool"
  for cmd :: git_cmd and operation :: string and repo :: string where
  succeeded: "out_status out = Inr (Exited 0) \<Longrightarrow>
    upstream_run cmd operation repo attempt [Spawned cmd out] (Inr ())"
| not_started: "upstream_run cmd operation repo attempt [] (Inl (IoFail msg e))"
| io_failed: "upstream_run cmd operation repo attempt [Spawned cmd out] (Inl (IoFail msg e))"
| gave_up: "out_status out = Inr status \<Longrightarrow> \<not> exit_success status \<Longrightarrow>
    drain_stderr (stderr_reads out) [] = Inr tail \<Longrightarrow>
    retry_delay attempt (transient_upstream_error tail) status = None \<Longrightarrow>
    upstream_run cmd operation repo attempt [Spawned cmd out]
      (Inl (UpstreamFailed operation repo (Suc attempt) (transient_upstream_error tail) status))"
| retried: "out_status out = Inr status \<Longrightarrow> \<not> exit_success status \<Longrightarrow>
    drain_stderr (stderr_reads out) [] = Inr tail \<Longrightarrow>
    retry_delay attempt (transient_upstream_error tail) status = Some delay \<Longrightarrow>
    upstream_run cmd operation repo (Suc attempt) es r \<Longrightarrow>
    upstream_run cmd operation repo attempt (Spawned cmd out # Slept delay # es) r"

inductive_cases upstream_run_nilE: "upstream_run cmd operation repo attempt [] r"

definition spawn_count :: "io_event list \<Rightarrow> nat" where
  "spawn_count es = length (filter (\<lambda>e. case e of Spawned _ _ \<Rightarrow> True | _ \<Rightarrow> False) es)"

definition sleeps :: "io_event list \<Rightarrow> nat list" where
  "sleeps es = List.map_filter (\<lambda>e. case e of Slept d \<Rightarrow> Some d | _ \<Rightarrow> None) es"

lemma spawn_count_simps [simp]:
  "spawn_count [] = 0" "spawn_count (Spawned c out # es) = Suc (spawn_count es)"
  "spawn_count (Slept d # es) = spawn_count es" "spawn_count (MetricCall m # es) = spawn_count es"
  "spawn_count (es @ es') = spawn_count es + spawn_count es'"
  by (simp_all add: spawn_count_def)

lemma sleeps_simps [simp]:
  "sleeps [] = []" "sleeps (Spawned c out # es) = sleeps es" "sleeps (Slept d # es) = d # sleeps es"
  "sleeps (MetricCall m # es) = sleeps es"
  by (simp_all add: sleeps_def List.map_filter_simps)

lemma length_delays: "length UPSTREAM_RETRY_DELAYS = 3"
  by (simp add: UPSTREAM_RETRY_DELAYS_def)

lemma retry_delay_Some:
  "retry_delay attempt reason status = Some d \<longleftrightarrow>
     reason \<noteq> None \<and> (\<exists>n. status = Exited n) \<and> attempt < 3 \<and> d = UPSTREAM_RETRY_DELAYS ! attempt"
  by (cases status) (auto simp: retry_delay_def exit_code_def UPSTREAM_RETRY_DELAYS_def)

lemma upstream_run_bounds:
  assumes "upstream_run cmd operation repo attempt es r" "attempt \<le> 3"
  shows "spawn_count es \<le> 4 - attempt \<and> sleeps es = take (length (sleeps es)) (drop attempt UPSTREAM_RETRY_DELAYS)"
  using assms
proof (induction rule: upstream_run.induct)
  case (retried out status tail attempt delay es r)
  have a: "attempt < 3" "delay = UPSTREAM_RETRY_DELAYS ! attempt"
    using retried.hyps(4) by (auto simp: retry_delay_Some)
  have "drop attempt UPSTREAM_RETRY_DELAYS = UPSTREAM_RETRY_DELAYS ! attempt # drop (Suc attempt) UPSTREAM_RETRY_DELAYS"
    using a(1) Cons_nth_drop_Suc[of attempt UPSTREAM_RETRY_DELAYS] by (simp add: length_delays)
  then show ?case using retried.IH a by auto
qed auto

lemma clean_staging_cases:
  assumes "clean_staging E p w = (r, w')"
  obtains (gone) "r = Inr ()" "io_remove_dir_all E p w = (Inr (), w')"
  | (absent) "r = Inr ()" "io_remove_dir_all E p w = (Inl NotFound, w')"
  | (error) msg e where "r = Inl (IoFail msg e)" "io_remove_dir_all E p w = (Inl e, w')"
proof -
  obtain r0 w0 where r0: "io_remove_dir_all E p w = (r0, w0)" by force
  show ?thesis
  proof (cases r0)
    case (Inl e)
    then show ?thesis using assms r0 absent error by (cases e) (auto simp: clean_staging_def)
  next
    case (Inr u)
    then show ?thesis using assms r0 gone by (cases u) (auto simp: clean_staging_def)
  qed
qed

lemma clean_staging_opt_trace:
  assumes "clean_staging_opt E staging w = (r, w')"
  shows "w_trace w' = w_trace w"
proof (cases staging)
  case None
  then show ?thesis using assms by (simp add: clean_staging_opt_def)
next
  case (Some p)
  then have "clean_staging E p w = (r, w')" using assms by (simp add: clean_staging_opt_def)
  then show ?thesis by (cases rule: clean_staging_cases) (auto dest: io_remove_dir_all_trace)
qed

lemma clean_staging_opt_Inl:
  assumes "clean_staging_opt E staging w = (Inl e, w')"
  shows "\<exists>msg e'. e = IoFail msg e'"
proof -
  obtain p where "clean_staging E p w = (Inl e, w')"
    using assms by (cases staging) (auto simp: clean_staging_opt_def)
  then show ?thesis by (cases rule: clean_staging_cases) auto
qed

lemma run_git_Inr:
  "run_git E cmd w = (Inr out, w') \<Longrightarrow>
     \<not> fault E (w_tick w) \<and> git E (w_tick w) cmd (w_fs w) = (out, w_fs w') \<and>
     w_trace w' = w_trace w @ [Spawned cmd out]"
  by (auto simp: run_git_def emit_def split: if_splits prod.splits)

lemma run_git_Inl: "run_git E cmd w = (Inl e, w') \<Longrightarrow> w_trace w' = w_trace w \<and> w_fs w' = w_fs w"
  by (auto simp: run_git_def split: if_splits prod.splits)

text \<open>The ways in which one attempt can end, as cases: first once its child runs, then the
whole attempt.\<close>

lemma upstream_attempt_ran:
  assumes "upstream_attempt E cmd operation repo staging attempt w = (a, w')"
    and c1: "clean_staging_opt E staging w = (Inr (), w1)" and c2: "run_git E cmd w1 = (Inr out, w2)"
  obtains
    (failed_io) e where "a = Return (Inl e)" "w_trace w' = w_trace w2" "\<exists>msg e'. e = IoFail msg e'"
  | (success) "a = Return (Inr ())" "w' = w2" "out_status out = Inr (Exited 0)"
  | (failure) w3 tail status where "drain_stderr (stderr_reads out) [] = Inr tail"
      "out_status out = Inr status" "\<not> exit_success status" "clean_staging_opt E staging w2 = (Inr (), w3)"
      "case retry_delay attempt (transient_upstream_error tail) status of
         None \<Rightarrow> w' = w3 \<and>
           a = Return (Inl (UpstreamFailed operation repo (attempt + 1) (transient_upstream_error tail) status))
       | Some d \<Rightarrow> w' = emit [Slept d] w3 \<and> a = Continue d"
proof -
  obtain r3 w3 where c3: "clean_staging_opt E staging w2 = (r3, w3)" by force
  note step = assms(1)[unfolded upstream_attempt_def c1 c2 c3 prod.case sum.case]
  consider (stderr) e where "drain_stderr (stderr_reads out) [] = Inl e"
    | (wait) tail e where "drain_stderr (stderr_reads out) [] = Inr tail" "out_status out = Inl e"
    | (ended) tail status where "drain_stderr (stderr_reads out) [] = Inr tail" "out_status out = Inr status"
    by (cases "drain_stderr (stderr_reads out) []"; cases "out_status out") auto
  then show ?thesis
  proof cases
    case (ended tail status)
    consider (ok) "exit_success status" | (dirty) e where "\<not> exit_success status" "r3 = Inl e"
      | (clean) "\<not> exit_success status" "r3 = Inr ()"
      by (cases r3) auto
    then show ?thesis
    proof cases
      case ok
      then show ?thesis using success step ended by (auto simp: exit_success_def)
    next
      case (dirty e)
      then show ?thesis
        using failed_io[of e] step ended clean_staging_opt_trace[OF c3] clean_staging_opt_Inl[of E staging w2 e w3] c3
        by auto
    next
      case clean
      then show ?thesis
        using failure[of tail status w3] step ended c3 by (auto simp: Let_def split: option.splits)
    qed
  qed (use step failed_io in auto)
qed

lemma upstream_attempt_cases:
  assumes "upstream_attempt E cmd operation repo staging attempt w = (a, w')"
  obtains
    (not_started) e where "a = Return (Inl e)" "w_trace w' = w_trace w" "\<exists>msg e'. e = IoFail msg e'"
  | (failed_io) out e where "a = Return (Inl e)" "w_trace w' = w_trace w @ [Spawned cmd out]"
      "\<exists>msg e'. e = IoFail msg e'"
  | (success) out w1 where "a = Return (Inr ())" "clean_staging_opt E staging w = (Inr (), w1)"
      "run_git E cmd w1 = (Inr out, w')" "out_status out = Inr (Exited 0)"
  | (failure) out w1 w2 w3 tail status where "clean_staging_opt E staging w = (Inr (), w1)"
      "run_git E cmd w1 = (Inr out, w2)" "drain_stderr (stderr_reads out) [] = Inr tail"
      "out_status out = Inr status" "\<not> exit_success status"
      "clean_staging_opt E staging w2 = (Inr (), w3)"
      "case retry_delay attempt (transient_upstream_error tail) status of
         None \<Rightarrow> w' = w3 \<and>
           a = Return (Inl (UpstreamFailed operation repo (attempt + 1) (transient_upstream_error tail) status))
       | Some d \<Rightarrow> w' = emit [Slept d] w3 \<and> a = Continue d"
proof -
  note io = failed_io and ok = success and fail = failure
  obtain r1 w1 where c1: "clean_staging_opt E staging w = (r1, w1)" by force
  obtain r2 w2 where c2: "run_git E cmd w1 = (r2, w2)" by force
  have tr: "w_trace w1 = w_trace w" using clean_staging_opt_trace[OF c1] .
  show ?thesis
  proof (cases r1)
    case (Inl e)
    then have "a = Return (Inl e)" "w' = w1" using assms c1 by (simp_all add: upstream_attempt_def)
    then show ?thesis using not_started tr clean_staging_opt_Inl[of E staging w e w1] c1 Inl by blast
  next
    case r1: (Inr u)
    show ?thesis
    proof (cases r2)
      case (Inl e)
      then have "a = Return (Inl (IoFail ''spawn upstream git'' e))" "w' = w2"
        using assms c1 c2 r1 by (simp_all add: upstream_attempt_def)
      moreover have "w_trace w2 = w_trace w" using c2 Inl run_git_Inl tr by metis
      ultimately show ?thesis using not_started by blast
    next
      case (Inr out)
      have c: "clean_staging_opt E staging w = (Inr (), w1)" "run_git E cmd w1 = (Inr out, w2)"
        using c1 c2 r1 Inr by simp_all
      have t: "w_trace w2 = w_trace w @ [Spawned cmd out]" using run_git_Inr[OF c(2)] tr by simp
      from assms c show ?thesis
      proof (cases rule: upstream_attempt_ran)
        case (failed_io e)
        then show ?thesis using io[of e out] t by simp
      next
        case success
        then show ?thesis using ok[of w1 out] c by simp
      next
        case (failure w3 tail status)
        show ?thesis by (rule fail[OF c failure])
      qed
    qed
  qed
qed

text \<open>The simulation: every run of the code is a run of the specification.\<close>

lemma run_upstream_from_refines:
  assumes "run_upstream_from E cmd operation repo staging attempt w = (r, w')" "attempt \<le> MAX_UPSTREAM_RETRIES"
  shows "\<exists>es. w_trace w' = w_trace w @ es \<and> upstream_run cmd operation repo attempt es r"
  using assms
proof (induction E cmd operation repo staging attempt w arbitrary: r w' rule: run_upstream_from.induct)
  case (1 E cmd operation repo staging attempt w)
  have bound: "\<not> attempt > MAX_UPSTREAM_RETRIES" using "1.prems"(2) by simp
  obtain a w1 where step: "upstream_attempt E cmd operation repo staging attempt w = (a, w1)" by force
  note run = "1.prems"(1)[unfolded run_upstream_from.simps[of E cmd operation repo staging attempt w]]
  show ?case
    using step
  proof (cases rule: upstream_attempt_cases)
    case (failure out wa wb wc tail status)
    have tr: "w_trace wc = w_trace w @ [Spawned cmd out]"
      using clean_staging_opt_trace[OF failure(1)] clean_staging_opt_trace[OF failure(6)]
        run_git_Inr[OF failure(2)] by simp
    show ?thesis
    proof (cases "retry_delay attempt (transient_upstream_error tail) status")
      case None
      then show ?thesis using failure tr run bound step
          upstream_run.gave_up[of out status tail attempt cmd operation repo] by auto
    next
      case (Some d)
      then have cont: "a = Continue d" "w1 = emit [Slept d] wc" using failure by auto
      have rest: "run_upstream_from E cmd operation repo staging (attempt + 1) w1 = (r, w')"
        using run bound step cont by simp
      have "attempt + 1 \<le> MAX_UPSTREAM_RETRIES"
        using Some by (simp add: retry_delay_Some MAX_UPSTREAM_RETRIES_def length_delays)
      then obtain es where "w_trace w' = w_trace w1 @ es" "upstream_run cmd operation repo (attempt + 1) es r"
        using "1.IH"[OF bound step[symmetric]] cont rest by blast
      then have "w_trace w' = w_trace w @ Spawned cmd out # Slept d # es"
        "upstream_run cmd operation repo attempt (Spawned cmd out # Slept d # es) r"
        using cont tr failure Some by (auto intro: upstream_run.retried[of out status tail])
      then show ?thesis by blast
    qed
  qed (use run bound step in \<open>auto intro!: upstream_run.intros dest!: run_git_Inr clean_staging_opt_trace\<close>)
qed

section \<open>What a failed run leaves on disk\<close>

text \<open>Child processes work on the same tree of files: they leave a tree.\<close>

definition git_keeps_tree :: "('e) io_env_scheme \<Rightarrow> bool" where
  "git_keeps_tree E \<longleftrightarrow> (\<forall>n cmd f out f'. git E n cmd f = (out, f') \<longrightarrow> fs_wf f \<longrightarrow> fs_wf f')"

lemma fs_wf_clean_staging_opt:
  assumes "clean_staging_opt E staging w = (r, w')" "fs_wf (w_fs w)"
  shows "fs_wf (w_fs w')"
proof (cases staging)
  case None
  then show ?thesis using assms by (simp add: clean_staging_opt_def)
next
  case (Some p)
  then have "clean_staging E p w = (r, w')" using assms by (simp add: clean_staging_opt_def)
  then show ?thesis by (cases rule: clean_staging_cases) (use assms(2) fs_wf_io_remove_dir_all in blast)+
qed

lemma fs_wf_run_git:
  assumes "git_keeps_tree E" "run_git E cmd w = (r, w')" "fs_wf (w_fs w)"
  shows "fs_wf (w_fs w')"
proof (cases r)
  case (Inl e)
  then show ?thesis using assms run_git_Inl[of E cmd w e w'] by simp
next
  case (Inr out)
  then have "git E (w_tick w) cmd (w_fs w) = (out, w_fs w')" using assms run_git_Inr by blast
  then show ?thesis using assms unfolding git_keeps_tree_def by blast
qed

lemma clean_staging_gone:
  assumes "clean_staging_opt E (Some p) w = (Inr (), w')" "fs_wf (w_fs w)" "components p \<noteq> []"
    "prefix (components p) q"
  shows "fs_lookup (w_fs w') q = None"
proof -
  have "clean_staging E p w = (Inr (), w')" using assms by (simp add: clean_staging_opt_def)
  then show ?thesis
    by (cases rule: clean_staging_cases) (use assms io_remove_dir_all_gone in blast)+
qed

lemma run_upstream_from_staging_gone:
  assumes "run_upstream_from E cmd operation repo (Some p) attempt w =
      (Inl (UpstreamFailed operation' repo' attempts reason status), w')"
    and "git_keeps_tree E" "fs_wf (w_fs w)" "components p \<noteq> []" "prefix (components p) q"
  shows "fs_lookup (w_fs w') q = None"
  using assms
proof (induction E cmd operation repo "Some p" attempt w rule: run_upstream_from.induct)
  case (1 E cmd operation repo attempt w)
  have bound: "\<not> attempt > MAX_UPSTREAM_RETRIES"
  proof
    assume "attempt > MAX_UPSTREAM_RETRIES"
    then show False
      using "1.prems"(1) by (simp add: run_upstream_from.simps[of E cmd operation repo "Some p" attempt w])
  qed
  obtain a w1 where step: "upstream_attempt E cmd operation repo (Some p) attempt w = (a, w1)" by force
  note run = "1.prems"(1)[unfolded run_upstream_from.simps[of E cmd operation repo "Some p" attempt w]]
  show ?case
    using step
  proof (cases rule: upstream_attempt_cases)
    case (failure out wa wb wc tail status1)
    have wf: "fs_wf (w_fs wb)"
      using fs_wf_clean_staging_opt[OF failure(1) "1.prems"(3)] fs_wf_run_git[OF "1.prems"(2) failure(2)] by simp
    show ?thesis
    proof (cases "retry_delay attempt (transient_upstream_error tail) status1")
      case None
      then have "w' = wc" using failure(7) run bound step by simp
      then show ?thesis using clean_staging_gone[OF failure(6) wf "1.prems"(4,5)] by simp
    next
      case (Some d)
      then have cont: "a = Continue d" "w1 = emit [Slept d] wc" using failure(7) by auto
      have "run_upstream_from E cmd operation repo (Some p) (attempt + 1) w1 =
          (Inl (UpstreamFailed operation' repo' attempts reason status), w')"
        using run bound step cont by simp
      moreover have "fs_wf (w_fs w1)" using fs_wf_clean_staging_opt[OF failure(6) wf] cont by simp
      ultimately show ?thesis
        using "1.hyps"[OF bound step[symmetric] cont(1)] "1.prems"(2,4,5) by blast
    qed
  qed (use run bound step in auto)
qed

section \<open>Single attempts\<close>

lemma drain_stderr_all:
  "read_ok rs \<Longrightarrow> drain_stderr rs [] = Inr (last_bytes MAX_UPSTREAM_STDERR_BYTES (concat (map projr rs)))"
  using drain_stderr_last_bytes[of rs "[]"] by (simp add: last_bytes_def)

text \<open>What the program keeps of a child's standard error.\<close>

definition kept_stderr :: "git_out \<Rightarrow> string" where
  "kept_stderr out = last_bytes MAX_UPSTREAM_STDERR_BYTES (concat (map projr (stderr_reads out)))"

definition transient_failure :: "git_out \<Rightarrow> bool" where
  "transient_failure out \<longleftrightarrow> read_ok (stderr_reads out) \<and>
     (case out_status out of Inr (Exited n) \<Rightarrow> n \<noteq> 0 | _ \<Rightarrow> False) \<and>
     transient_upstream_error (kept_stderr out) \<noteq> None"

definition clean_success :: "git_out \<Rightarrow> bool" where
  "clean_success out \<longleftrightarrow> read_ok (stderr_reads out) \<and> out_status out = Inr (Exited 0)"

lemma upstream_attempt_no_staging:
  assumes "\<not> fault E (w_tick w)" "git E (w_tick w) cmd (w_fs w) = (out, f)" "read_ok (stderr_reads out)"
    "out_status out = Inr status"
  shows "upstream_attempt E cmd operation repo None attempt w =
    (let w' = emit [Spawned cmd out] (w\<lparr>w_fs := f, w_tick := Suc (w_tick w)\<rparr>);
         reason = transient_upstream_error (kept_stderr out) in
     if exit_success status then (Return (Inr ()), w')
     else (case retry_delay attempt reason status of
             Some d \<Rightarrow> (Continue d, emit [Slept d] w')
           | None \<Rightarrow> (Return (Inl (UpstreamFailed operation repo (attempt + 1) reason status)), w')))"
  using assms
  by (simp add: upstream_attempt_def clean_staging_opt_def io_ok_def run_git_def drain_stderr_all
      kept_stderr_def Let_def del: emit_simps)

lemma run_upstream_from_recovers:
  assumes "\<forall>i<k. \<not> fault E (w_tick w + i) \<and> (\<forall>f. transient_failure (fst (git E (w_tick w + i) cmd f)))"
    and "\<not> fault E (w_tick w + k)" "\<forall>f. clean_success (fst (git E (w_tick w + k) cmd f))" "attempt + k \<le> 3"
  shows "case run_upstream_from E cmd operation repo None attempt w of (r, w') \<Rightarrow>
    r = Inr () \<and> w_tick w' = w_tick w + k + 1"
  using assms
proof (induction k arbitrary: attempt w)
  case 0
  obtain out f where g: "git E (w_tick w) cmd (w_fs w) = (out, f)" by force
  then have "clean_success out" using "0.prems"(3) by (metis add_0_right fst_conv)
  then show ?case
    using "0.prems" g upstream_attempt_no_staging[OF _ g, of "Exited 0" operation repo attempt]
    by (simp add: run_upstream_from.simps[of E cmd operation repo None attempt w] clean_success_def
        exit_success_def MAX_UPSTREAM_RETRIES_def length_delays Let_def)
next
  case (Suc k)
  obtain out f where g: "git E (w_tick w) cmd (w_fs w) = (out, f)" by force
  have "\<not> fault E (w_tick w)" "transient_failure out"
    using Suc.prems(1)[rule_format, of 0] g by (auto, metis fst_conv)
  then obtain n where n: "out_status out = Inr (Exited n)" "n \<noteq> 0" "read_ok (stderr_reads out)"
    "transient_upstream_error (kept_stderr out) \<noteq> None"
    unfolding transient_failure_def by (auto split: sum.splits exit_status.splits)
  let ?d = "UPSTREAM_RETRY_DELAYS ! attempt"
  let ?w = "emit [Slept ?d] (emit [Spawned cmd out] (w\<lparr>w_fs := f, w_tick := Suc (w_tick w)\<rparr>))"
  have "retry_delay attempt (transient_upstream_error (kept_stderr out)) (Exited n) = Some ?d"
    using n Suc.prems(4) by (simp add: retry_delay_Some)
  then have step: "upstream_attempt E cmd operation repo None attempt w = (Continue ?d, ?w)"
    using upstream_attempt_no_staging[OF \<open>\<not> fault E (w_tick w)\<close> g n(3,1), of operation repo attempt] n(2)
    by (simp add: exit_success_def Let_def)
  have "case run_upstream_from E cmd operation repo None (attempt + 1) ?w of (r, w') \<Rightarrow>
    r = Inr () \<and> w_tick w' = w_tick ?w + k + 1"
  proof (rule Suc.IH)
    show "\<forall>i<k. \<not> fault E (w_tick ?w + i) \<and> (\<forall>f. transient_failure (fst (git E (w_tick ?w + i) cmd f)))"
      using Suc.prems(1) by (auto dest: spec[of _ "Suc i" for i])
  qed (use Suc.prems in simp_all)
  then show ?case
    using step Suc.prems(4)
    by (simp add: run_upstream_from.simps[of E cmd operation repo None attempt w]
        MAX_UPSTREAM_RETRIES_def length_delays)
qed

lemma lowercase_contains:
  assumes "contains (to_ascii_lowercase s) m" "\<forall>c\<in>set m. is_ascii c" "m \<noteq> []"
  shows "contains (to_ascii_lowercase (from_utf8_lossy s)) m"
proof -
  obtain a b where "to_ascii_lowercase s = a @ m @ b" using assms(1) unfolding contains_iff by blast
  then obtain a' t where t: "s = a' @ t" "map to_ascii_lower_char t = m @ b"
    unfolding to_ascii_lowercase_def by (metis map_eq_append_conv)
  then obtain m' b' where "t = m' @ b'" "map to_ascii_lower_char m' = m"
    by (metis map_eq_append_conv)
  then have s: "s = a' @ m' @ b'" "to_ascii_lowercase m' = m" using t by (simp_all add: to_ascii_lowercase_def)
  have low: "is_ascii c" if "is_ascii (to_ascii_lower_char c)" for c
    using that by (auto simp: to_ascii_lower_char_def is_ascii_upper_def is_ascii_def split: if_splits)
  have "\<forall>c\<in>set m'. is_ascii c" "m' \<noteq> []"
    using s(2) assms(2,3) low by (auto simp: to_ascii_lowercase_def)
  moreover have "contains s m'" using s(1) unfolding contains_iff by blast
  ultimately have "contains (from_utf8_lossy s) m'" by (rule from_utf8_lossy_contains_ascii)
  then show ?thesis
    unfolding contains_iff using s(2) by (metis to_ascii_lowercase_append)
qed

lemma permanent_messages_ascii: "m \<in> set permanent_messages \<Longrightarrow> (\<forall>c\<in>set m. is_ascii c) \<and> m \<noteq> []"
proof -
  have "list_all (\<lambda>m. list_all is_ascii m \<and> m \<noteq> []) permanent_messages" by code_simp
  then show "m \<in> set permanent_messages \<Longrightarrow> (\<forall>c\<in>set m. is_ascii c) \<and> m \<noteq> []"
    by (auto simp: list_all_iff)
qed

lemma permanent_wins:
  assumes "m \<in> set permanent_messages" "contains (to_ascii_lowercase bytes) m"
  shows "transient_upstream_error bytes = None"
  using assms lowercase_contains[OF assms(2)] permanent_messages_ascii[OF assms(1)]
  by (auto simp: transient_upstream_error_def list_ex_iff Let_def)

section \<open>Properties\<close>

text \<open>C8: Whatever happens, an upstream run is a run of the retry policy: at most four attempts, with waits
  between them that are an initial part of 1, 2, 4 seconds (so at most 7 seconds in all), an attempt
  only after a failure whose diagnostic is transient and which was not a signal; the \<open>unreachable!\<close> at
  the end of the loop is not reached.\<close>

theorem run_upstream_policy:
  "case run_upstream E cmd operation repo staging w of (r, w') \<Rightarrow>
     (\<exists>es. w_trace w' = w_trace w @ es \<and> upstream_run cmd operation repo 0 es r \<and>
        spawn_count es \<le> 4 \<and> prefix (sleeps es) [1, 2, 4] \<and> sum_list (sleeps es) \<le> 7 \<and>
        (\<forall>msg. r \<noteq> Inl (Panic msg)))"
proof -
  obtain r w' where run: "run_upstream E cmd operation repo staging w = (r, w')" by force
  then have "run_upstream_from E cmd operation repo staging 0 w = (r, w')"
    by (simp add: run_upstream_def)
  then obtain es where es: "w_trace w' = w_trace w @ es" "upstream_run cmd operation repo 0 es r"
    using run_upstream_from_refines by blast
  have b: "spawn_count es \<le> 4" "sleeps es = take (length (sleeps es)) [1, 2, 4]"
    using upstream_run_bounds[OF es(2)] by (simp_all add: UPSTREAM_RETRY_DELAYS_def)
  then have p: "prefix (sleeps es) [1, 2, 4]" by (metis take_is_prefix)
  then have "sleeps es \<in> {[], [1], [1, 2], [1, 2, 4]}" by (auto simp: prefix_Cons)
  then have "sum_list (sleeps es) \<le> 7" by auto
  moreover have "r \<noteq> Inl (Panic msg)" for msg
  proof -
    have "upstream_run cmd operation repo n es r \<Longrightarrow> r \<noteq> Inl (Panic msg)" for n
      by (induction rule: upstream_run.induct) auto
    then show ?thesis using es(2) .
  qed
  ultimately show ?thesis using run es b p by auto
qed





text \<open>C33: A clone that fails by the program's own verdict leaves nothing at or below its staging
  path.\<close>

theorem failed_clone_leaves_no_staging:
  assumes "git_keeps_tree E" "fs_wf (w_fs w)" "components staging \<noteq> []"
    and "run_upstream E cmd operation repo (Some staging) w =
      (Inl (UpstreamFailed operation' repo' attempts reason status), w')"
    and "prefix (components staging) q"
  shows "fs_lookup (w_fs w') q = None"
  using run_upstream_from_staging_gone[OF _ assms(1-3,5)] assms(4) by (simp add: run_upstream_def)

theorem failed_clone_leaves_no_staging_witness:
  "let out = \<lparr>stdin_write = Inr (), out_status = Inr (Signaled 9), stderr_reads = [], stdout = []\<rparr>;
     f = \<lparr>entries = [([Normal ''t''], Dir)], deny = []\<rparr>;
     E = \<lparr>fault = \<lambda>_. False, hash_iter = \<lambda>_. [], fault_keeps = \<lambda>_ _. False, clock = \<lambda>_. 0, git = \<lambda>_ _ f. (out, f)\<rparr>;
     cmd = \<lparr>program = ''git'', args = [''clone''], env = [], cwd = None, stdin = []\<rparr>;
     w = \<lparr>w_fs = f, w_tick = 0, w_trace = []\<rparr>
   in fs_lookup (w_fs (snd (run_upstream E cmd ''clone'' ''a'' (Some ''t'') w))) [Normal ''t''] = None"
proof -
  let ?out = "\<lparr>stdin_write = Inr (), out_status = Inr (Signaled 9), stderr_reads = [], stdout = []\<rparr>"
  let ?E = "\<lparr>fault = \<lambda>_. False, hash_iter = \<lambda>_. [], fault_keeps = \<lambda>_ _. False, clock = \<lambda>_. 0, git = \<lambda>_ _ f. (?out, f)\<rparr>"
  let ?cmd = "\<lparr>program = ''git'', args = [''clone''], env = [], cwd = None, stdin = []\<rparr>"
  let ?w = "\<lparr>w_fs = \<lparr>entries = [([Normal ''t''], Dir)], deny = []\<rparr>, w_tick = 0, w_trace = []\<rparr>"
  have t: "components ''t'' = [Normal ''t'']" by code_simp
  have "git_keeps_tree ?E" by (simp add: git_keeps_tree_def)
  moreover have "fs_wf (w_fs ?w)" by (auto simp: fs_wf_def fs_lookup_def split: if_splits)
  moreover have "fst (run_upstream ?E ?cmd ''clone'' ''a'' (Some ''t'') ?w) =
      Inl (UpstreamFailed ''clone'' ''a'' 1 None (Signaled 9))" by code_simp
  ultimately show ?thesis
    using failed_clone_leaves_no_staging[of ?E ?w "''t''" ?cmd "''clone''" "''a''" "''clone''" "''a''" 1 None
        "Signaled 9" _ "[Normal ''t'']"] t
    by (simp add: Let_def prod_eq_iff)
qed

end
