(* ===== verification/Effects.thy ===== *)
theory Effects
  imports Retry
begin

text \<open>
  What the operations of the lower theories may do to a world, as relations that are reflexive and
  transitive and so compose along the sequence of calls an operation makes: which events it appends to the
  trace (\<open>emits\<close>), that it leaves the rest of the world alone (\<open>io_only\<close>), and which files it may change
  (\<open>keeps_outside\<close>).
\<close>

section \<open>Events\<close>

definition emits :: "(io_event \<Rightarrow> bool) \<Rightarrow> ('z) io_world_scheme \<Rightarrow> ('z) io_world_scheme \<Rightarrow> bool" where
  "emits P w w' \<longleftrightarrow> (\<exists>es. w_trace w' = w_trace w @ es \<and> list_all P es)"

named_theorems emits_intros

lemma emits_refl [emits_intros]: "emits P w w"
  by (simp add: emits_def)

lemma emits_trans: "emits P w1 w2 \<Longrightarrow> emits P w2 w3 \<Longrightarrow> emits P w1 w3"
  by (force simp: emits_def)

lemma emits_same_trace: "w_trace w' = w_trace w \<Longrightarrow> emits P w w'"
  by (simp add: emits_def)

lemma emits_metric: "emits P w w' \<Longrightarrow> list_all P (map MetricCall ms) \<Longrightarrow> emits P w (metric ms w')"
  by (force simp: emits_def)

lemma emits_syscall: "syscall E op w = (r, w') \<Longrightarrow> emits P w w'"
  by (intro emits_same_trace syscall_trace)

lemma emits_run_git: "run_git E cmd w = (r, w') \<Longrightarrow> (\<And>out. P (Spawned cmd out)) \<Longrightarrow> emits P w w'"
  by (cases r) (auto simp: emits_def dest!: run_git_Inl run_git_Inr)

lemma upstream_run_events:
  assumes "upstream_run cmd operation repo attempt es r" "\<And>out. P (Spawned cmd out)" "\<And>d. P (Slept d)"
  shows "list_all P es"
  using assms(1) by induction (use assms(2,3) in auto)

lemma emits_run_upstream:
  assumes "run_upstream E cmd operation repo staging w = (r, w')"
    and "\<And>out. P (Spawned cmd out)" "\<And>d. P (Slept d)"
  shows "emits P w w'"
  using run_upstream_from_refines[of E cmd operation repo staging 0 w r w'] assms upstream_run_events
  unfolding run_upstream_def emits_def by blast

section \<open>The rest of the world\<close>

definition io_only :: "('z) io_world_scheme \<Rightarrow> ('z) io_world_scheme \<Rightarrow> bool" where
  "io_only w w' \<longleftrightarrow> w' = w\<lparr>w_fs := w_fs w', w_tick := w_tick w', w_trace := w_trace w'\<rparr>"

lemma io_only_iff: "io_only w w' \<longleftrightarrow> io_world.more w' = io_world.more w"
  by (cases w; cases w') (simp add: io_only_def)

lemma io_only_refl [simp]: "io_only w w"
  by (simp add: io_only_iff)

lemma io_only_trans: "io_only w1 w2 \<Longrightarrow> io_only w2 w3 \<Longrightarrow> io_only w1 w3"
  by (simp add: io_only_iff)

lemma io_only_emit [simp]: "io_only w (emit es w') \<longleftrightarrow> io_only w w'" "io_only w (metric ms w') \<longleftrightarrow> io_only w w'"
  by (simp_all add: io_only_iff emit_def metric_def)

lemma io_only_syscall: "syscall E op w = (r, w') \<Longrightarrow> io_only w w'"
  by (auto simp: io_only_iff syscall_def split: if_splits prod.splits)

lemma io_only_remove: "io_remove_dir_all E p w = (r, w') \<Longrightarrow> io_only w w'"
  by (auto simp: io_remove_dir_all_def io_only_iff syscall_def split: if_splits prod.splits)

lemma io_only_run_git: "run_git E cmd w = (r, w') \<Longrightarrow> io_only w w'"
  by (auto simp: io_only_iff run_git_def emit_def split: if_splits prod.splits)

lemma io_only_clean: "clean_staging_opt E staging w = (r, w') \<Longrightarrow> io_only w w'"
proof (cases staging)
  case (Some p)
  assume "clean_staging_opt E staging w = (r, w')"
  then have "clean_staging E p w = (r, w')" using Some by (simp add: clean_staging_opt_def)
  then show ?thesis by (cases rule: clean_staging_cases) (auto dest: io_only_remove)
qed (simp add: clean_staging_opt_def)

section \<open>Running an upstream command, step by step\<close>

text \<open>A relation on worlds that the removal of the staging directory, running the command and sleeping
  respect is respected by the whole run.\<close>

lemma upstream_attempt_rel:
  assumes "upstream_attempt E cmd operation repo staging attempt w = (a, w')"
    and trans: "\<And>u v x. R u v \<Longrightarrow> R v x \<Longrightarrow> R u x"
    and clean: "\<And>u r v. clean_staging_opt E staging u = (r, v) \<Longrightarrow> R u v"
    and run: "\<And>u r v. run_git E cmd u = (r, v) \<Longrightarrow> R u v"
    and sleep: "\<And>u d. R u (emit [Slept d] u)"
  shows "R w w'"
proof -
  obtain r1 w1 where c1: "clean_staging_opt E staging w = (r1, w1)" by force
  obtain r2 w2 where c2: "run_git E cmd w1 = (r2, w2)" by force
  obtain r3 w3 where c3: "clean_staging_opt E staging w2 = (r3, w3)" by force
  have s1: "R w w1" and s2: "R w w2" and s3: "R w w3" and s4: "R w (emit [Slept d] w3)" for d
    using clean[OF c1] run[OF c2] clean[OF c3] trans sleep by blast+
  have "w' = w1 \<or> w' = w2 \<or> w' = w3 \<or> (\<exists>d. w' = emit [Slept d] w3)"
    using assms(1) c1 c2 c3
    by (auto simp: upstream_attempt_def Let_def split: sum.splits option.splits if_splits)
  then show ?thesis using s1 s2 s3 s4 by blast
qed

lemma run_upstream_from_rel:
  assumes "run_upstream_from E cmd operation repo staging attempt w = (r, w')"
    and refl: "\<And>u. R u u" and trans: "\<And>u v x. R u v \<Longrightarrow> R v x \<Longrightarrow> R u x"
    and clean: "\<And>u r v. clean_staging_opt E staging u = (r, v) \<Longrightarrow> R u v"
    and run: "\<And>u r v. run_git E cmd u = (r, v) \<Longrightarrow> R u v"
    and sleep: "\<And>u d. R u (emit [Slept d] u)"
  shows "R w w'"
  using assms(1)
proof (induction "Suc MAX_UPSTREAM_RETRIES - attempt" arbitrary: attempt w)
  case 0
  then show ?case using refl by (simp add: run_upstream_from.simps[of E cmd operation repo staging attempt w])
next
  case (Suc n)
  obtain a w1 where step: "upstream_attempt E cmd operation repo staging attempt w = (a, w1)" by force
  have R1: "R w w1" by (rule upstream_attempt_rel[where R = R, OF step trans clean run sleep])
  have "\<not> attempt > MAX_UPSTREAM_RETRIES" using Suc.hyps(2) by simp
  then have unfold: "(case a of Return r \<Rightarrow> (r, w1)
      | Continue d \<Rightarrow> run_upstream_from E cmd operation repo staging (attempt + 1) w1) = (r, w')"
    using Suc.prems step by (simp add: run_upstream_from.simps[of E cmd operation repo staging attempt w])
  show ?case
  proof (cases a)
    case (Return r)
    then show ?thesis using unfold R1 by simp
  next
    case (Continue d)
    have "n = Suc MAX_UPSTREAM_RETRIES - (attempt + 1)" using Suc.hyps(2) by simp
    then show ?thesis using Suc.hyps(1)[of "attempt + 1" w1] unfold Continue R1 trans by auto
  qed
qed

lemma run_upstream_success:
  assumes "run_upstream E cmd operation repo staging w = (Inr u, w')"
  shows "\<exists>n f out. git E n cmd f = (out, w_fs w') \<and> out_status out = Inr (Exited 0)"
proof -
  have "run_upstream_from E cmd operation repo staging attempt w = (Inr u, w') \<Longrightarrow> ?thesis" for attempt
  proof (induction E cmd operation repo staging attempt w rule: run_upstream_from.induct)
    case (1 E cmd operation repo staging attempt w)
    obtain a w1 where step: "upstream_attempt E cmd operation repo staging attempt w = (a, w1)" by force
    have bound: "\<not> attempt > MAX_UPSTREAM_RETRIES"
    proof
      assume "attempt > MAX_UPSTREAM_RETRIES"
      then show False using "1.prems" by (simp add: run_upstream_from.simps[of E cmd operation repo staging attempt w])
    qed
    note unfold = "1.prems"[unfolded run_upstream_from.simps[of E cmd operation repo staging attempt w]]
    show ?case
      using step
    proof (cases rule: upstream_attempt_cases)
      case (success out wa)
      then have "w1 = w'" using unfold bound step by simp
      then show ?thesis using success run_git_Inr[OF success(3)] by blast
    next
      case (failure out wa wb wc tail status)
      show ?thesis
      proof (cases "retry_delay attempt (transient_upstream_error tail) status")
        case None
        then show ?thesis using failure(7) unfold bound step by auto
      next
        case (Some d)
        then have "a = Continue d" using failure(7) by simp
        then show ?thesis using "1.IH"[OF bound step[symmetric]] unfold bound step by auto
      qed
    qed (use unfold bound step in auto)
  qed
  then show ?thesis using assms unfolding run_upstream_def by blast
qed

lemma io_only_run_upstream:
  assumes "run_upstream E cmd operation repo staging w = (r, w')"
  shows "io_only w w'"
  using assms unfolding run_upstream_def
  by (rule run_upstream_from_rel[where R = io_only])
    (auto intro: io_only_trans dest: io_only_clean io_only_run_git)

section \<open>Files\<close>

text \<open>Whatever exists outside some trees is left as it is, and nothing appears there but directories.\<close>

definition kept_at :: "fpath \<Rightarrow> fs \<Rightarrow> fs \<Rightarrow> bool" where
  "kept_at q f f' \<longleftrightarrow> fs_lookup f' q = fs_lookup f q \<or> fs_lookup f q = None \<and> fs_lookup f' q = Some Dir"

definition keeps_outside :: "fpath list \<Rightarrow> fs \<Rightarrow> fs \<Rightarrow> bool" where
  "keeps_outside ps f f' \<longleftrightarrow> deny f' = deny f \<and> (\<forall>q. (\<forall>p\<in>set ps. \<not> prefix p q) \<longrightarrow> kept_at q f f')"

lemma kept_at_same [simp]: "fs_lookup f' q = fs_lookup f q \<Longrightarrow> kept_at q f f'"
  by (simp add: kept_at_def)

lemma kept_at_trans: "kept_at q f g \<Longrightarrow> kept_at q g h \<Longrightarrow> kept_at q f h"
  by (auto simp: kept_at_def)

lemma keeps_outside_refl [simp]: "keeps_outside ps f f"
  by (simp add: keeps_outside_def)

lemma keeps_outside_trans: "keeps_outside ps f g \<Longrightarrow> keeps_outside ps g h \<Longrightarrow> keeps_outside ps f h"
  unfolding keeps_outside_def using kept_at_trans by metis

lemma keeps_outside_same: "same_outside qs f g \<Longrightarrow> set qs \<subseteq> set ps \<Longrightarrow> keeps_outside ps f g"
  by (auto simp: keeps_outside_def same_outside_def kept_at_def)

lemma create_dirs_lookup:
  "fs_create_dirs ps f = (r, f') \<Longrightarrow> fs_lookup f' q = fs_lookup f q \<or> fs_lookup f' q = Some Dir"
proof (induction ps arbitrary: f)
  case (Cons p ps)
  show ?case
  proof (cases "fs_lookup f p")
    case None
    then show ?thesis using Cons by (auto simp: fs_lookup_put split: if_splits)
  next
    case (Some n)
    then show ?thesis using Cons by (cases n) auto
  qed
qed simp

lemma keeps_outside_create: "fs_create_dir_all p f = (r, f') \<Longrightarrow> keeps_outside ps f f'"
proof -
  have "deny (snd (fs_create_dirs qs f)) = deny f" for qs f
    by (induction qs arbitrary: f) (auto split: option.splits node.splits)
  then show "fs_create_dir_all p f = (r, f') \<Longrightarrow> keeps_outside ps f f'"
    using fs_create_dirs_mono create_dirs_lookup unfolding keeps_outside_def kept_at_def fs_create_dir_all_def
    by (metis snd_conv)
qed

lemma keeps_outside_run_upstream:
  assumes "run_upstream E cmd operation repo staging w = (r, w')"
    and "\<And>n f out f'. git E n cmd f = (out, f') \<Longrightarrow> keeps_outside ps f f'"
    and "\<And>p. staging = Some p \<Longrightarrow> components p \<in> set ps"
  shows "keeps_outside ps (w_fs w) (w_fs w')"
proof -
  have clean: "keeps_outside ps (w_fs u) (w_fs v)" if c: "clean_staging_opt E staging u = (r, v)" for u r v
  proof (cases staging)
    case None
    then show ?thesis using c by (simp add: clean_staging_opt_def)
  next
    case (Some p)
    then have cs: "clean_staging E p u = (r, v)" using c by (simp add: clean_staging_opt_def)
    then have "same_outside [components p] (w_fs u) (w_fs v)"
      by (cases rule: clean_staging_cases) (auto dest: same_outside_io_remove_dir_all)
    then show ?thesis using assms(3)[OF Some] by (intro keeps_outside_same) auto
  qed
  have run: "keeps_outside ps (w_fs u) (w_fs v)" if g: "run_git E cmd u = (r, v)" for u r v
    using g assms(2) by (cases r) (auto dest!: run_git_Inl run_git_Inr)
  show ?thesis
    using assms(1) unfolding run_upstream_def
    by (rule run_upstream_from_rel[where R = "\<lambda>u v. keeps_outside ps (w_fs u) (w_fs v)"])
      (use clean run in \<open>auto intro: keeps_outside_trans\<close>)
qed

lemma keeps_outside_run_git:
  assumes "run_git E cmd w = (r, w')" "\<And>n f out f'. git E n cmd f = (out, f') \<Longrightarrow> keeps_outside ps f f'"
  shows "keeps_outside ps (w_fs w) (w_fs w')"
  using assms by (cases r) (auto dest!: run_git_Inl run_git_Inr)

lemma keeps_outside_rename:
  assumes "syscall E (fs_rename p q) w = (r, w')" "p \<in> set ps" "q \<in> set ps"
  shows "keeps_outside ps (w_fs w) (w_fs w')"
proof -
  have "w_fs w' = w_fs w \<or> fs_rename p q (w_fs w) = (r, w_fs w')"
    using assms(1) by (cases r) (auto dest: syscall_Inl syscall_Inr)
  then show ?thesis
    using same_outside_rename keeps_outside_same[of "[p, q]" _ _ ps] assms(2,3) by fastforce
qed

text \<open>Relations on file systems, for a context around an operation.\<close>

lemma io_contextD: "io_context msg m w = (r, w') \<Longrightarrow> \<exists>r'. m w = (r', w') \<and> (isl r' \<longleftrightarrow> isl r) \<and> (\<not> isl r \<longrightarrow> projr r' = projr r)"
  by (auto simp: io_context_def split: prod.splits sum.splits)

end
