(* ===== verification/PktLine.thy ===== *)
theory PktLine
  imports Prelude
begin

text \<open>
  The text protocols of \<^verbatim>\<open>src/src/git.rs\<close>: \<open>pkt_line\<close> (the framing of the advertisement header),
  \<open>parse_wants\<close> (the scan of an upload-pack request for \<open>want\<close> lines) and \<open>git_config_env\<close> (git's
  environment-based configuration).

  \<open>pkt\<close> and \<open>encode_pkt\<close> describe the pkt-line format independently of the scanner; \<open>parse_wants\<close> is shown
  to compute exactly the object ids wanted by the data frames of any well-formed stream, to stop at
  the first malformed frame, and to return nothing but 40- or 64-digit hexadecimal strings, which is
  what keeps them safe to place in a refspec and in a \<open>cat-file\<close> query.
\<close>

section \<open>Operations\<close>

definition pkt_line :: "string \<Rightarrow> string" where
  "pkt_line s = show_hex_padded 4 (length s + 4) @ s"

text \<open>The length prefix at the head of a frame; \<open>None\<close> when the four bytes are no hexadecimal number.\<close>

definition frame_len :: "string \<Rightarrow> nat option" where
  "frame_len h = (case from_utf8 h of None \<Rightarrow> None | Some t \<Rightarrow> from_str_radix 16 t)"

definition want_oid :: "string \<Rightarrow> string option" where
  "want_oid payload =
     (case strip_prefix payload ''want '' of
        None \<Rightarrow> None
      | Some rest \<Rightarrow>
          let oid = takeWhile is_ascii_hexdigit rest in
          if length oid = 40 \<or> length oid = 64 then Some oid else None)"

definition insert_want :: "string \<Rightarrow> string set \<Rightarrow> string set" where
  "insert_want payload oids = (case want_oid payload of None \<Rightarrow> oids | Some oid \<Rightarrow> insert oid oids)"

text \<open>The \<open>while\<close> loop of \<open>parse_wants\<close>, over the position and the set collected so far.\<close>

function parse_wants_from :: "string \<Rightarrow> nat \<Rightarrow> string set \<Rightarrow> string set" where
  "parse_wants_from body pos oids =
     (if pos + 4 \<le> length body then
        (case frame_len (take 4 (drop pos body)) of
           None \<Rightarrow> oids
         | Some len \<Rightarrow>
             if len < 4 then parse_wants_from body (pos + 4) oids
             else if pos + len > length body then oids
             else parse_wants_from body (pos + len)
                    (insert_want (take (len - 4) (drop (pos + 4) body)) oids))
      else oids)"
  by pat_completeness auto
termination
  by (relation "measure (\<lambda>(body, pos, oids). length body - pos)") auto

declare parse_wants_from.simps [simp del]

definition parse_wants :: "string \<Rightarrow> string set" where
  "parse_wants body = parse_wants_from body 0 {}"

text \<open>\<open>git_config_env\<close>: the count, then a numbered key and value for each setting.\<close>

fun number_pairs :: "nat \<Rightarrow> (string \<times> string) list \<Rightarrow> (string \<times> string) list" where
  "number_pairs i [] = []"
| "number_pairs i ((k, v) # ps) =
     (''GIT_CONFIG_KEY_'' @ show_dec i, k) # (''GIT_CONFIG_VALUE_'' @ show_dec i, v) #
     number_pairs (Suc i) ps"

definition git_config_env :: "string \<Rightarrow> string option \<Rightarrow> (string \<times> string) list" where
  "git_config_env big_file_threshold auth_header =
     (let pairs = [(''core.bigFileThreshold'', big_file_threshold), (''core.deltaBaseCacheLimit'', ''128m'')] @
            (case auth_header of None \<Rightarrow> [] | Some h \<Rightarrow> [(''http.extraHeader'', h)])
      in (''GIT_CONFIG_COUNT'', show_dec (length pairs)) # number_pairs 0 pairs)"

section \<open>The pkt-line format\<close>

text \<open>A frame of the pkt-line format: the three special packets, which carry no payload, or data.\<close>

datatype pkt = FlushPkt | DelimPkt | ResponseEndPkt | DataPkt string

fun encode_pkt :: "pkt \<Rightarrow> string" where
  "encode_pkt FlushPkt = ''0000''"
| "encode_pkt DelimPkt = ''0001''"
| "encode_pkt ResponseEndPkt = ''0002''"
| "encode_pkt (DataPkt s) = pkt_line s"

definition pkt_ok :: "pkt \<Rightarrow> bool" where
  "pkt_ok p \<longleftrightarrow> (case p of DataPkt s \<Rightarrow> length s + 4 < 65536 | _ \<Rightarrow> True)"

definition pkt_wants :: "pkt \<Rightarrow> string set" where
  "pkt_wants p = (case p of DataPkt s \<Rightarrow> set_option (want_oid s) | _ \<Rightarrow> {})"

lemma insert_want_eq: "insert_want s oids = oids \<union> set_option (want_oid s)"
  by (auto simp: insert_want_def split: option.splits)

lemma show_hex_padded_length: "n < 65536 \<Longrightarrow> length (show_hex_padded 4 n) = 4"
  using length_show_radix[of 16 n 4] by (simp add: show_hex_padded_def Let_def)

lemma digit_char_ascii: "d < 16 \<Longrightarrow> is_ascii (digit_char d)"
  by (simp add: is_ascii_def digit_char_def)

lemma show_hex_padded_chars:
  assumes "c \<in> set (show_hex_padded w n)"
  shows "\<exists>d<16. c = digit_char d"
proof -
  have zero: "CHR ''0'' = digit_char 0" by code_simp
  have "c = CHR ''0'' \<or> c \<in> set (show_radix 16 n)"
    using assms by (auto simp: show_hex_padded_def Let_def split: if_splits)
  then show ?thesis
  proof
    assume "c = CHR ''0''"
    then show ?thesis using zero by (metis zero_less_numeral)
  qed (use show_radix_digits[of 16 c n] in simp)
qed

lemma frame_len_show_hex:
  assumes "n < 65536"
  shows "frame_len (show_hex_padded 4 n) = Some n"
proof -
  let ?s = "show_hex_padded 4 n"
  have ascii: "\<forall>c\<in>set ?s. is_ascii c"
    using show_hex_padded_chars digit_char_ascii by blast
  have "?s \<noteq> []" using show_hex_padded_length[OF assms] by auto
  moreover have "CHR ''+'' \<notin> set ?s"
  proof
    assume "CHR ''+'' \<in> set ?s"
    then obtain d where "d < 16" "CHR ''+'' = digit_char d" using show_hex_padded_chars by blast
    then show False using digit_char_plus[of d] by simp
  qed
  then have "strip_prefix ?s ''+'' = None"
    by (cases "strip_prefix ?s ''+''") (auto simp: strip_prefix_Some_iff)
  moreover have "parse_digits 16 0 ?s = Some n"
    by (simp add: show_hex_padded_def Let_def parse_digits_zeros parse_show_radix)
  ultimately show ?thesis
    using assms ascii by (simp add: frame_len_def from_utf8_def utf8_valid_ascii from_str_radix_def)
qed

lemma frame_len_special:
  "frame_len ''0000'' = Some 0" "frame_len ''0001'' = Some 1" "frame_len ''0002'' = Some 2"
  by code_simp+

text \<open>The loop does not look at what lies before the position.\<close>

lemma parse_wants_from_shift:
  "parse_wants_from (pre @ body) (length pre + pos) oids = parse_wants_from body pos oids"
proof (induction body pos oids rule: parse_wants_from.induct)
  case (1 body pos oids)
  then show ?case
    by (simp add: parse_wants_from.simps[of "pre @ body" "length pre + pos" oids]
        parse_wants_from.simps[of body pos oids] add.assoc split: option.split)
qed

lemma parse_wants_from_skip:
  assumes "length h = 4" "frame_len h = Some len" "len < 4"
  shows "parse_wants_from (h @ rest) 0 oids = parse_wants_from rest 0 oids"
  using assms parse_wants_from_shift[of h rest 0 oids]
  by (simp add: parse_wants_from.simps[of "h @ rest" 0 oids])

lemma parse_wants_from_data:
  assumes "length s + 4 < 65536"
  shows "parse_wants_from (pkt_line s @ rest) 0 oids = parse_wants_from rest 0 (insert_want s oids)"
proof -
  let ?h = "show_hex_padded 4 (length s + 4)"
  have len: "length ?h = 4" using assms by (rule show_hex_padded_length)
  have "parse_wants_from (?h @ s @ rest) 0 oids
      = parse_wants_from (?h @ s @ rest) (length s + 4) (insert_want s oids)"
    using len frame_len_show_hex[OF assms]
    by (simp add: parse_wants_from.simps[of "?h @ s @ rest" 0 oids])
  then show ?thesis
    using len parse_wants_from_shift[of "?h @ s" rest 0 "insert_want s oids"]
    by (simp add: pkt_line_def add.commute)
qed

lemma parse_wants_from_pkt:
  assumes "pkt_ok p"
  shows "parse_wants_from (encode_pkt p @ rest) 0 oids = parse_wants_from rest 0 (oids \<union> pkt_wants p)"
proof (cases p)
  case (DataPkt s)
  then show ?thesis using assms
    by (simp add: pkt_ok_def pkt_wants_def parse_wants_from_data insert_want_eq)
qed (use parse_wants_from_skip frame_len_special in \<open>auto simp: pkt_wants_def simp del: append_Cons\<close>)

lemma parse_wants_from_pkts:
  assumes "\<forall>p\<in>set ps. pkt_ok p"
  shows "parse_wants_from (concat (map encode_pkt ps) @ rest) 0 oids =
           parse_wants_from rest 0 (oids \<union> \<Union> (pkt_wants ` set ps))"
  using assms
  by (induction ps arbitrary: oids) (simp_all add: parse_wants_from_pkt Un_assoc)

text \<open>Where the walk stops: fewer than four bytes, no hexadecimal length, or a frame that runs past the
  end of the body.\<close>

definition malformed :: "string \<Rightarrow> bool" where
  "malformed rest \<longleftrightarrow>
     length rest < 4 \<or>
     (case frame_len (take 4 rest) of None \<Rightarrow> True | Some len \<Rightarrow> 4 \<le> len \<and> length rest < len)"

lemma parse_wants_from_malformed: "malformed rest \<Longrightarrow> parse_wants_from rest 0 oids = oids"
  by (auto simp: malformed_def parse_wants_from.simps[of rest 0 oids] split: option.splits)

definition is_oid :: "string \<Rightarrow> bool" where
  "is_oid s \<longleftrightarrow> (length s = 40 \<or> length s = 64) \<and> list_all is_ascii_hexdigit s"

lemma want_oid_is_oid: "want_oid s = Some x \<Longrightarrow> is_oid x"
  by (auto simp: want_oid_def is_oid_def Let_def list_all_iff dest: set_takeWhileD
      split: option.splits if_splits)

lemma parse_wants_from_oids:
  "\<forall>x\<in>oids. is_oid x \<Longrightarrow> \<forall>x\<in>parse_wants_from body pos oids. is_oid x"
proof (induction body pos oids rule: parse_wants_from.induct)
  case (1 body pos oids)
  have "\<forall>x\<in>insert_want s oids. is_oid x" for s
    using "1.prems" want_oid_is_oid by (auto simp: insert_want_eq)
  then show ?case
    using 1 by (simp add: parse_wants_from.simps[of body pos oids] split: option.split)
qed

section \<open>Properties\<close>

text \<open>C34: The want scan is exact. On a stream of pkt-line frames (flush, delimiter, response-end and data
  packets whose length fits the four-digit prefix), followed by nothing or by malformed framing,
  \<open>parse_wants\<close> returns exactly the object ids named by the \<open>want\<close> lines of the data frames: no want is
  lost, and bytes that are not a frame payload are never taken for one.\<close>

theorem parse_wants_exact:
  assumes "\<forall>p\<in>set ps. pkt_ok p" "malformed rest"
  shows "parse_wants (concat (map encode_pkt ps) @ rest) =
           {oid. \<exists>s. DataPkt s \<in> set ps \<and> want_oid s = Some oid}"
proof -
  have "parse_wants (concat (map encode_pkt ps) @ rest) = \<Union> (pkt_wants ` set ps)"
    using assms by (simp add: parse_wants_def parse_wants_from_pkts parse_wants_from_malformed)
  also have "\<dots> = {oid. \<exists>s. DataPkt s \<in> set ps \<and> want_oid s = Some oid}"
    by (force simp: pkt_wants_def split: pkt.splits)
  finally show ?thesis .
qed

theorem parse_wants_exact_witness:
  "list_all pkt_ok [DataPkt ''command=fetch'', DelimPkt, DataPkt (''want '' @ replicate 40 (CHR ''a''))] \<and>
   malformed ''zzzz'' \<and>
   parse_wants (concat (map encode_pkt
       [DataPkt ''command=fetch'', DelimPkt, DataPkt (''want '' @ replicate 40 (CHR ''a''))]) @ ''zzzz'')
     = {replicate 40 (CHR ''a'')}"
proof -
  let ?ps = "[DataPkt ''command=fetch'', DelimPkt, DataPkt (''want '' @ replicate 40 (CHR ''a''))]"
  have ok: "\<forall>p\<in>set ?ps. pkt_ok p" by (simp add: pkt_ok_def)
  have m: "malformed ''zzzz''" by code_simp
  have w: "want_oid ''command=fetch'' = None"
    "want_oid (''want '' @ replicate 40 (CHR ''a'')) = Some (replicate 40 (CHR ''a''))"
    by code_simp+
  have "{oid. \<exists>s. DataPkt s \<in> set ?ps \<and> want_oid s = Some oid} = {replicate 40 (CHR ''a'')}"
    using w by auto
  then show ?thesis using ok m parse_wants_exact[OF ok m] by (simp add: list_all_iff)
qed

text \<open>C35: Wanted ids are safe to interpolate. Whatever bytes a client sends, every string \<open>parse_wants\<close>
  returns consists of 40 or 64 hexadecimal digits, so that no client can smuggle a space, a colon, a
  line feed or an option into the \<open>cat-file\<close> query or the \<open>git fetch\<close> refspec built from it.\<close>

theorem parse_wants_hex:
  "parse_wants body \<subseteq> {oid. (length oid = 40 \<or> length oid = 64) \<and> list_all is_ascii_hexdigit oid}"
  using parse_wants_from_oids[of "{}" body 0] by (auto simp: parse_wants_def is_oid_def)

end
