(* ===== verification/Lru.thy ===== *)
theory Lru
  imports Prelude
begin

text \<open>
  The interface of \<open>lru::LruCache<String, u64>\<close>, a package the program depends on. Its operations are a
  record passed to every definition that uses a cache; the locale \<open>lru_laws\<close> states what the package
  documents of them, in terms of the list that \<open>iter\<close> yields (most recently used first).
  \<open>list_lru\<close> is a reference instance: a list kept in that order.
\<close>

section \<open>Operations\<close>

record 'l lru_ops =
  lru_unbounded :: 'l
  lru_get :: "string \<Rightarrow> 'l \<Rightarrow> u64 option \<times> 'l"
  lru_put :: "string \<Rightarrow> u64 \<Rightarrow> 'l \<Rightarrow> u64 option \<times> 'l"
  lru_peek :: "string \<Rightarrow> 'l \<Rightarrow> u64 option"
  lru_peek_mut :: "string \<Rightarrow> u64 \<Rightarrow> 'l \<Rightarrow> 'l"
  lru_pop :: "string \<Rightarrow> 'l \<Rightarrow> u64 option \<times> 'l"
  lru_pop_lru :: "'l \<Rightarrow> (string \<times> u64) option \<times> 'l"
  lru_iter :: "'l \<Rightarrow> (string \<times> u64) list"
  lru_len :: "'l \<Rightarrow> nat"

section \<open>Lists in recency order\<close>

definition drop_key :: "string \<Rightarrow> (string \<times> 'v) list \<Rightarrow> (string \<times> 'v) list" where
  "drop_key k xs = filter (\<lambda>(k', _). k' \<noteq> k) xs"

definition promote :: "string \<Rightarrow> (string \<times> 'v) list \<Rightarrow> (string \<times> 'v) list" where
  "promote k xs = (case map_of xs k of None \<Rightarrow> xs | Some v \<Rightarrow> (k, v) # drop_key k xs)"

definition overwrite :: "string \<Rightarrow> 'v \<Rightarrow> (string \<times> 'v) list \<Rightarrow> (string \<times> 'v) list" where
  "overwrite k v xs = map (\<lambda>(k', v'). if k' = k then (k', v) else (k', v')) xs"

abbreviation keys :: "(string \<times> 'v) list \<Rightarrow> string list" where
  "keys xs \<equiv> map fst xs"

lemma map_of_drop_key [simp]: "map_of (drop_key k xs) k' = (if k' = k then None else map_of xs k')"
  by (induction xs) (auto simp: drop_key_def)

lemma drop_key_absent: "map_of xs k = None \<Longrightarrow> drop_key k xs = xs"
  by (induction xs) (auto simp: drop_key_def split: if_splits)

lemma set_keys_drop_key [simp]: "set (keys (drop_key k xs)) = set (keys xs) - {k}"
  by (auto simp: drop_key_def image_iff)

lemma distinct_drop_key: "distinct (keys xs) \<Longrightarrow> distinct (keys (drop_key k xs))"
  by (auto simp: drop_key_def distinct_map filter_map inj_on_def)

lemma map_of_promote [simp]: "map_of (promote k xs) = map_of xs"
  by (auto simp: promote_def fun_eq_iff split: option.splits)

lemma set_drop_key: "set (drop_key k xs) = {x \<in> set xs. fst x \<noteq> k}"
  by (auto simp: drop_key_def)

lemma set_keys_promote [simp]: "set (keys (promote k xs)) = set (keys xs)"
  by (cases "map_of xs k") (force simp: promote_def set_drop_key dest: map_of_SomeD)+

lemma distinct_promote: "distinct (keys xs) \<Longrightarrow> distinct (keys (promote k xs))"
  by (cases "map_of xs k") (auto simp: promote_def distinct_drop_key set_drop_key)

lemma keys_overwrite [simp]: "keys (overwrite k v xs) = keys xs"
  by (induction xs) (auto simp: overwrite_def)

lemma map_of_overwrite:
  "map_of (overwrite k v xs) k' = (if k' = k \<and> map_of xs k \<noteq> None then Some v else map_of xs k')"
  by (induction xs) (auto simp: overwrite_def)

lemma overwrite_absent: "map_of xs k = None \<Longrightarrow> overwrite k v xs = xs"
  by (induction xs) (auto simp: overwrite_def split: if_splits)

lemma length_overwrite [simp]: "length (overwrite k v xs) = length xs"
  by (simp add: overwrite_def)

section \<open>Sums of sizes\<close>

abbreviation sizes :: "(string \<times> u64) list \<Rightarrow> u64" where
  "sizes xs \<equiv> sum_list (map snd xs)"

lemma sizes_drop_key:
  "distinct (keys xs) \<Longrightarrow> sizes (drop_key k xs) = sizes xs - (case map_of xs k of None \<Rightarrow> 0 | Some v \<Rightarrow> v)"
proof (induction xs)
  case (Cons x xs)
  show ?case
  proof (cases "fst x = k")
    case True
    then have "map_of xs k = None" using Cons.prems by (simp add: map_of_eq_None_iff)
    then show ?thesis using True drop_key_absent[of xs k] by (cases x) (simp add: drop_key_def)
  next
    case False
    then show ?thesis using Cons by (cases x) (simp add: drop_key_def)
  qed
qed (simp add: drop_key_def)

lemma sizes_promote: "distinct (keys xs) \<Longrightarrow> sizes (promote k xs) = sizes xs"
  by (simp add: promote_def sizes_drop_key split: option.split)

lemma sizes_overwrite:
  "distinct (keys xs) \<Longrightarrow> map_of xs k = Some old \<Longrightarrow> sizes (overwrite k v xs) = sizes xs - old + v"
proof (induction xs)
  case (Cons x xs)
  show ?case
  proof (cases "fst x = k")
    case True
    then have "map_of xs k = None" using Cons.prems by (simp add: map_of_eq_None_iff)
    then show ?thesis
      using True Cons.prems overwrite_absent[of xs k v] by (cases x) (simp add: overwrite_def)
  next
    case False
    then show ?thesis using Cons by (cases x) (simp add: overwrite_def)
  qed
qed simp

section \<open>The laws\<close>

locale lru_laws =
  fixes L :: "'l lru_ops"
  assumes iter_unbounded: "lru_iter L (lru_unbounded L) = []"
    and get_law: "distinct (keys (lru_iter L c)) \<Longrightarrow> lru_get L k c = (r, c') \<Longrightarrow>
      r = map_of (lru_iter L c) k \<and> lru_iter L c' = promote k (lru_iter L c)"
    and put_law: "distinct (keys (lru_iter L c)) \<Longrightarrow> lru_put L k v c = (r, c') \<Longrightarrow>
      r = map_of (lru_iter L c) k \<and> lru_iter L c' = (k, v) # drop_key k (lru_iter L c)"
    and peek_law: "distinct (keys (lru_iter L c)) \<Longrightarrow> lru_peek L k c = map_of (lru_iter L c) k"
    and peek_mut_law: "distinct (keys (lru_iter L c)) \<Longrightarrow>
      lru_iter L (lru_peek_mut L k v c) = overwrite k v (lru_iter L c)"
    and pop_law: "distinct (keys (lru_iter L c)) \<Longrightarrow> lru_pop L k c = (r, c') \<Longrightarrow>
      r = map_of (lru_iter L c) k \<and> lru_iter L c' = drop_key k (lru_iter L c)"
    and pop_lru_law: "distinct (keys (lru_iter L c)) \<Longrightarrow> lru_pop_lru L c = (e, c') \<Longrightarrow>
      (if lru_iter L c = [] then e = None \<and> lru_iter L c' = []
       else e = Some (last (lru_iter L c)) \<and> lru_iter L c' = butlast (lru_iter L c))"
    and len_law: "lru_len L c = length (lru_iter L c)"

section \<open>The reference instance\<close>

definition list_lru :: "(string \<times> u64) list lru_ops" where
  "list_lru =
     \<lparr>lru_unbounded = [],
      lru_get = (\<lambda>k c. (map_of c k, promote k c)),
      lru_put = (\<lambda>k v c. (map_of c k, (k, v) # drop_key k c)),
      lru_peek = (\<lambda>k c. map_of c k),
      lru_peek_mut = overwrite,
      lru_pop = (\<lambda>k c. (map_of c k, drop_key k c)),
      lru_pop_lru = (\<lambda>c. if c = [] then (None, []) else (Some (last c), butlast c)),
      lru_iter = (\<lambda>c. c),
      lru_len = length\<rparr>"

interpretation list_lru: lru_laws list_lru
  by unfold_locales (auto simp: list_lru_def split: if_splits)

end
