(* ===== verification/Scan.thy ===== *)
theory Scan
  imports FileSystem
begin

text \<open>
  The walks over the cache directory in \<^verbatim>\<open>src/src/evict.rs\<close>: \<open>find_mirrors\<close>, \<open>find_lfs_blobs\<close>, \<open>rel_name\<close>
  and \<open>measure\<close>. Each walk keeps an explicit stack of directories; it ends because every entry of the file
  system lies below at most one of the directories that replace the one popped.

  The lemmas show what the walks find: \<open>measure\<close> returns the sum of the lengths of all files below a
  directory, \<open>find_mirrors\<close> exactly the outermost directories with a \<open>HEAD\<close> file outside the reserved ones,
  under the name the repository was requested by.
\<close>

section \<open>Definitions\<close>

definition INCOMING_DIR :: string where
  "INCOMING_DIR = ''.incoming''"

record Scanned =
  sc_name :: string
  sc_size :: u64
  sc_mtime :: nat

text \<open>\<open>Component::as_os_str\<close>, and \<open>DirEntry::path\<close>.\<close>

fun component_str :: "component \<Rightarrow> string" where
  "component_str RootDir = ''/''"
| "component_str CurDir = ''.''"
| "component_str ParentDir = ''..''"
| "component_str (Normal x) = x"

abbreviation child :: "fpath \<Rightarrow> string \<Rightarrow> fpath" where
  "child d x \<equiv> d @ [Normal x]"

definition rel_name :: "fpath \<Rightarrow> fpath \<Rightarrow> string" where
  "rel_name root dir =
     join_with (CHR ''/'') (map (\<lambda>c. from_utf8_lossy (component_str c))
       (if prefix root dir then drop (length root) dir else dir))"

subsection \<open>Termination of the walks\<close>

definition below_count :: "fs \<Rightarrow> fpath \<Rightarrow> nat" where
  "below_count f d = length (filter (prefix d) (map fst (entries f)))"

definition stack_weight :: "fs \<Rightarrow> fpath list \<Rightarrow> nat" where
  "stack_weight f stack = sum_list (map (below_count f) stack)"

lemma stack_weight_simps [simp]:
  "stack_weight f [] = 0" "stack_weight f (s @ t) = stack_weight f s + stack_weight f t"
  "stack_weight f (d # s) = below_count f d + stack_weight f s"
  by (simp_all add: stack_weight_def)

lemma child_prefix_unique: "prefix (child d x) q \<Longrightarrow> prefix (child d y) q \<Longrightarrow> x = y"
  by (auto simp: prefix_def)

lemma children_count_le:
  assumes "distinct xs"
  shows "sum_list (map (\<lambda>x. length (filter (prefix (child d x)) qs)) xs) + length (filter ((=) d) qs)
    \<le> length (filter (prefix d) qs)"
proof (induction qs)
  case (Cons q qs)
  have "sum_list (map (\<lambda>x. length (filter (prefix (child d x)) (q # qs))) xs) =
      length (filter (\<lambda>x. prefix (child d x) q) xs)
      + sum_list (map (\<lambda>x. length (filter (prefix (child d x)) qs)) xs)"
    by (induction xs) auto
  moreover have "length (filter (\<lambda>x. prefix (child d x) q) xs) \<le> (if strict_prefix d q then 1 else 0)"
  proof (cases "filter (\<lambda>x. prefix (child d x) q) xs")
    case (Cons y ys)
    have all: "prefix (child d z) q" if "z \<in> set (y # ys)" for z
      using that Cons[symmetric] by auto
    then have y: "prefix (child d y) q" by simp
    have "set (y # ys) \<subseteq> {y}" using all y child_prefix_unique by blast
    moreover have "distinct (y # ys)" using assms Cons by (metis distinct_filter)
    ultimately have "ys = []" by (cases ys) auto
    moreover have "strict_prefix d q" using y by (auto simp: prefix_def strict_prefix_def)
    ultimately show ?thesis using Cons by simp
  qed simp
  moreover have "prefix d q \<longleftrightarrow> d = q \<or> strict_prefix d q" by (auto simp: strict_prefix_def)
  moreover have "\<not> (d = q \<and> strict_prefix d q)" by (auto simp: strict_prefix_def)
  ultimately show ?case using Cons.IH by (cases "strict_prefix d q"; cases "d = q") auto
qed simp

lemma stack_weight_children:
  assumes "fs_lookup f d \<noteq> None" "distinct xs"
  shows "stack_weight f (map (child d) xs) < below_count f d"
proof -
  have "d \<in> set (map fst (entries f))"
    using assms(1) by (auto simp: fs_lookup_def map_of_eq_None_iff)
  then have "length (filter ((=) d) (map fst (entries f))) > 0"
    by (metis (mono_tags, lifting) filter_empty_conv length_greater_0_conv)
  then show ?thesis
    using children_count_le[OF assms(2), of d "map fst (entries f)"]
    unfolding stack_weight_def below_count_def map_map comp_def by linarith
qed

lemma fs_read_dir_Inr:
  "fs_read_dir f d = Inr xs \<longleftrightarrow> d \<notin> set (deny f) \<and> fs_lookup f d = Some Dir \<and> xs = child_names f d"
  by (auto simp: fs_read_dir_def fs_stat_def split: option.splits node.splits)

lemma stack_pop: "stack \<noteq> [] \<Longrightarrow> stack_weight f stack = stack_weight f (butlast stack) + below_count f (last stack)"
  by (metis append_butlast_last_id stack_weight_simps add.right_neutral)

lemma read_dir_children_smaller:
  "fs_read_dir f d = Inr xs \<Longrightarrow> stack_weight f (map (child d) (filter P xs)) < below_count f d"
  by (rule stack_weight_children) (auto simp: fs_read_dir_Inr)

lemma walk_step_smaller:
  assumes "stack \<noteq> []" "fs_read_dir f (last stack) = Inr xs"
  shows "stack_weight f (butlast stack @ map (child (last stack)) (filter P xs)) < stack_weight f stack"
  using read_dir_children_smaller[OF assms(2)] stack_pop[OF assms(1)] by simp

subsection \<open>Measuring a directory\<close>

text \<open>The inner loop over the entries of one directory, with the state (stack, size, mtime).\<close>

fun measure_dir ::
  "fs \<Rightarrow> fpath \<Rightarrow> string list \<Rightarrow> fpath list \<Rightarrow> u64 \<Rightarrow> nat \<Rightarrow> fpath list \<times> u64 \<times> nat" where
  "measure_dir f d [] stack sz mt = (stack, sz, mt)"
| "measure_dir f d (x # xs) stack sz mt =
     (case fs_stat f (child d x) of
        Inl _ \<Rightarrow> measure_dir f d xs stack sz mt
      | Inr Dir \<Rightarrow> measure_dir f d xs (stack @ [child d x]) sz mt
      | Inr (File bytes t) \<Rightarrow>
          measure_dir f d xs stack (sz + word_of_nat (length bytes)) (if t > mt then t else mt))"

lemma measure_dir_stack:
  "fst (measure_dir f d xs stack sz mt) =
     stack @ map (child d) (filter (\<lambda>x. fs_stat f (child d x) = Inr Dir) xs)"
  by (induction xs arbitrary: stack sz mt) (auto split: sum.splits node.splits)

lemma measure_dir_smaller:
  assumes "measure_dir f (last stack) xs (butlast stack) sz mt = (stack', y)"
    and "fs_read_dir f (last stack) = Inr xs" "stack \<noteq> []"
  shows "stack_weight f stack' < stack_weight f stack"
  using walk_step_smaller[OF assms(3,2), of "\<lambda>x. fs_stat f (child (last stack) x) = Inr Dir"]
    measure_dir_stack[of f "last stack" xs "butlast stack" sz mt] assms(1) by simp

function measure_loop :: "fs \<Rightarrow> fpath list \<Rightarrow> u64 \<Rightarrow> nat \<Rightarrow> u64 \<times> nat" where
  "measure_loop f stack sz mt =
     (if stack = [] then (sz, mt)
      else (case fs_read_dir f (last stack) of
              Inl _ \<Rightarrow> measure_loop f (butlast stack) sz mt
            | Inr xs \<Rightarrow>
                (case measure_dir f (last stack) xs (butlast stack) sz mt of
                   (stack', sz', mt') \<Rightarrow> measure_loop f stack' sz' mt')))"
  by pat_completeness auto
termination
  by (relation "measures [\<lambda>(f, stack, sz, mt). stack_weight f stack, \<lambda>(f, stack, sz, mt). length stack]")
    (auto simp: stack_pop dest: measure_dir_smaller split: prod.splits)

declare measure_loop.simps [simp del]

definition measure_tree :: "fs \<Rightarrow> fpath \<Rightarrow> u64 \<times> nat" where
  "measure_tree f dir = measure_loop f [dir] 0 0"

subsection \<open>Finding mirrors and objects\<close>

text \<open>The directories one level down that the search for mirrors descends into.\<close>

definition skipped_dir :: "string \<Rightarrow> bool" where
  "skipped_dir x \<longleftrightarrow>
     (let fname = from_utf8_lossy x in
      ends_with fname INCOMING_SUFFIX \<or> ends_with fname EVICTING_SUFFIX \<or> fname = LFS_OBJECTS_DIR)"

definition namespace_dir :: "fs \<Rightarrow> fpath \<Rightarrow> string \<Rightarrow> bool" where
  "namespace_dir f d x \<longleftrightarrow> fs_lookup f (child d x) = Some Dir \<and> \<not> skipped_dir x"

function find_mirrors_loop :: "fs \<Rightarrow> fpath \<Rightarrow> fpath list \<Rightarrow> Scanned list \<Rightarrow> Scanned list" where
  "find_mirrors_loop f root stack out =
     (if stack = [] then out
      else
        let dir = last stack; rest = butlast stack in
        if fs_is_file f (child dir ''HEAD'') then
          (let name = rel_name root dir in
           if name = [] then find_mirrors_loop f root rest out
           else (case measure_tree f dir of
                   (sz, mt) \<Rightarrow>
                     find_mirrors_loop f root rest (out @ [\<lparr>sc_name = name, sc_size = sz, sc_mtime = mt\<rparr>])))
        else (case fs_read_dir f dir of
                Inl _ \<Rightarrow> find_mirrors_loop f root rest out
              | Inr xs \<Rightarrow>
                  find_mirrors_loop f root (rest @ map (child dir) (filter (namespace_dir f dir) xs)) out))"
  by pat_completeness auto
termination
  by (relation "measures [\<lambda>(f, root, stack, out). stack_weight f stack, \<lambda>(f, root, stack, out). length stack]")
    (auto simp: stack_pop read_dir_children_smaller)

declare find_mirrors_loop.simps [simp del]

definition find_mirrors :: "fs \<Rightarrow> fpath \<Rightarrow> Scanned list" where
  "find_mirrors f cache_root = find_mirrors_loop f cache_root [cache_root] []"

text \<open>The two nested loops over the store: shards, then the objects of a shard.\<close>

definition scan_object :: "fs \<Rightarrow> fpath \<Rightarrow> string \<Rightarrow> string \<Rightarrow> Scanned option" where
  "scan_object f shard_path shard_name x =
     (case fs_stat f (child shard_path x) of
        Inr (File bytes t) \<Rightarrow>
          Some \<lparr>sc_name = LFS_OBJECTS_DIR @ ''/'' @ shard_name @ ''/'' @ from_utf8_lossy x,
                sc_size = word_of_nat (length bytes), sc_mtime = t\<rparr>
      | _ \<Rightarrow> None)"

definition scan_shard :: "fs \<Rightarrow> fpath \<Rightarrow> string \<Rightarrow> Scanned list" where
  "scan_shard f lfs_root x =
     (if fs_lookup f (child lfs_root x) \<noteq> Some Dir \<or> from_utf8_lossy x = INCOMING_DIR then []
      else (case fs_read_dir f (child lfs_root x) of
              Inl _ \<Rightarrow> []
            | Inr objects \<Rightarrow>
                List.map_filter (scan_object f (child lfs_root x) (from_utf8_lossy x)) objects))"

definition find_lfs_blobs :: "fs \<Rightarrow> fpath \<Rightarrow> Scanned list" where
  "find_lfs_blobs f cache_root =
     (let lfs_root = child cache_root LFS_OBJECTS_DIR in
      case fs_read_dir f lfs_root of
        Inl _ \<Rightarrow> []
      | Inr shards \<Rightarrow> concat (map (scan_shard f lfs_root) shards))"

section \<open>What measuring returns\<close>

text \<open>File systems in which the walks can see everything: a tree with no forbidden path, where every
  component after the first is a name.\<close>

definition fs_plain :: "fs \<Rightarrow> bool" where
  "fs_plain f \<longleftrightarrow> fs_wf f \<and> deny f = [] \<and>
     (\<forall>q. fs_lookup f q \<noteq> None \<longrightarrow> list_all (\<lambda>c. case c of Normal _ \<Rightarrow> True | _ \<Rightarrow> False) (tl q))"

fun node_bytes :: "node option \<Rightarrow> u64" where
  "node_bytes (Some (File bytes _)) = word_of_nat (length bytes)"
| "node_bytes _ = 0"

definition paths_below :: "fs \<Rightarrow> fpath \<Rightarrow> fpath set" where
  "paths_below f d = {q. strict_prefix d q \<and> fs_lookup f q \<noteq> None}"

definition bytes_below :: "fs \<Rightarrow> fpath \<Rightarrow> u64" where
  "bytes_below f d = (\<Sum>q\<in>paths_below f d. node_bytes (fs_lookup f q))"

lemma finite_paths: "finite {q. fs_lookup f q \<noteq> None \<and> P q}"
  by (rule finite_subset[of _ "fst ` set (entries f)"])
    (auto simp: fs_lookup_def dest: map_of_SomeD intro: rev_image_eqI)

lemma paths_below_children:
  assumes "fs_plain f" "d \<noteq> []"
  shows "paths_below f d =
    (\<Union>x\<in>set (child_names f d). {q. prefix (child d x) q \<and> fs_lookup f q \<noteq> None})"
proof (intro equalityI subsetI)
  fix q assume q: "q \<in> paths_below f d"
  then obtain c r where cr: "q = d @ c # r" by (auto simp: paths_below_def elim: strict_prefixE')
  have "list_all (\<lambda>c. case c of Normal _ \<Rightarrow> True | _ \<Rightarrow> False) (tl q)"
    using assms(1) q unfolding fs_plain_def paths_below_def by blast
  then obtain x where x: "c = Normal x" using assms(2) cr by (cases d; cases c) auto
  have "fs_lookup f (child d x) \<noteq> None"
    using fs_wf_ancestor[of f "child d x" q] assms(1) q cr x
    by (simp add: fs_plain_def paths_below_def prefix_def)
  then show "q \<in> (\<Union>x\<in>set (child_names f d). {q. prefix (child d x) q \<and> fs_lookup f q \<noteq> None})"
    using q cr x by (auto simp: child_names_iff paths_below_def prefix_def)
next
  fix q assume "q \<in> (\<Union>x\<in>set (child_names f d). {q. prefix (child d x) q \<and> fs_lookup f q \<noteq> None})"
  then show "q \<in> paths_below f d" by (auto simp: paths_below_def prefix_def strict_prefix_def)
qed

lemma paths_at_or_below:
  "fs_lookup f p \<noteq> None \<Longrightarrow> {q. prefix p q \<and> fs_lookup f q \<noteq> None} = insert p (paths_below f p)"
  by (auto simp: paths_below_def strict_prefix_def)

lemma nothing_below:
  assumes "fs_wf f" "p \<noteq> []" "fs_lookup f p \<noteq> Some Dir"
  shows "paths_below f p = {}"
proof -
  have False if q: "strict_prefix p q" "fs_lookup f q \<noteq> None" for q
  proof -
    obtain c r where "q = p @ c # r" using q(1) by (auto elim: strict_prefixE')
    then have "prefix (p @ [c]) q" by (simp add: prefix_def)
    then have "fs_lookup f (p @ [c]) \<noteq> None" using fs_wf_ancestor[OF assms(1)] q(2) by blast
    then show False using assms unfolding fs_wf_def by blast
  qed
  then show ?thesis unfolding paths_below_def by blast
qed

lemma bytes_below_children:
  assumes "fs_plain f" "d \<noteq> []"
  shows "bytes_below f d =
    (\<Sum>x\<in>set (child_names f d). node_bytes (fs_lookup f (child d x)) + bytes_below f (child d x))"
proof -
  let ?T = "\<lambda>x. {q. prefix (child d x) q \<and> fs_lookup f q \<noteq> None}"
  have fin: "finite (?T x)" for x using finite_paths[of f "prefix (child d x)"] by (simp add: conj_commute)
  have "bytes_below f d = (\<Sum>x\<in>set (child_names f d). \<Sum>q\<in>?T x. node_bytes (fs_lookup f q))"
    unfolding bytes_below_def paths_below_children[OF assms]
    by (rule sum.UNION_disjoint) (use fin child_prefix_unique in \<open>auto simp del: append_assoc\<close>)
  also have "\<dots> = (\<Sum>x\<in>set (child_names f d). node_bytes (fs_lookup f (child d x)) + bytes_below f (child d x))"
  proof (rule sum.cong)
    fix x assume "x \<in> set (child_names f d)"
    then have "fs_lookup f (child d x) \<noteq> None" by (simp add: child_names_iff)
    then have "?T x = insert (child d x) (paths_below f (child d x))" by (rule paths_at_or_below)
    moreover have "finite (paths_below f (child d x))" "child d x \<notin> paths_below f (child d x)"
      using finite_paths[of f "strict_prefix (child d x)"] by (simp_all add: paths_below_def conj_commute)
    ultimately show "(\<Sum>q\<in>?T x. node_bytes (fs_lookup f q)) =
        node_bytes (fs_lookup f (child d x)) + bytes_below f (child d x)"
      by (simp add: bytes_below_def)
  qed simp
  finally show ?thesis .
qed

lemma fs_stat_plain:
  "deny f = [] \<Longrightarrow> fs_stat f p = (case fs_lookup f p of None \<Rightarrow> Inl NotFound | Some n \<Rightarrow> Inr n)"
  by (simp add: fs_stat_def)

lemma measure_dir_size:
  assumes "deny f = []"
  shows "fst (snd (measure_dir f d xs stack sz mt)) = sz + (\<Sum>x\<leftarrow>xs. node_bytes (fs_lookup f (child d x)))"
  using assms
  by (induction xs arbitrary: stack sz mt) (auto simp: fs_stat_plain split: option.splits node.splits)

text \<open>A directory holds what its entries hold, and only directories have something below them.\<close>

lemma measured_children:
  fixes f d
  defines "xs \<equiv> child_names f d"
  assumes "fs_plain f" "d \<noteq> []"
  shows "bytes_below f d = (\<Sum>x\<leftarrow>xs. node_bytes (fs_lookup f (child d x))) +
    (\<Sum>x\<leftarrow>filter (\<lambda>x. fs_stat f (child d x) = Inr Dir) xs. bytes_below f (child d x))"
proof -
  have zero: "bytes_below f (child d x) = 0" if "fs_stat f (child d x) \<noteq> Inr Dir" for x
    using that nothing_below[of f "child d x"] assms(2)
    by (auto simp: fs_plain_def bytes_below_def fs_stat_plain split: option.splits)
  have "(\<Sum>x\<leftarrow>filter (\<lambda>x. fs_stat f (child d x) = Inr Dir) ys. bytes_below f (child d x))
      = (\<Sum>x\<leftarrow>ys. bytes_below f (child d x))" for ys
    using zero by (induction ys) auto
  moreover have "bytes_below f d = (\<Sum>x\<leftarrow>xs. node_bytes (fs_lookup f (child d x)) + bytes_below f (child d x))"
    unfolding bytes_below_children[OF assms(2,3)] xs_def by (simp add: sum_list_distinct_conv_sum_set)
  ultimately show ?thesis by (simp add: sum_list_addf)
qed

lemma measure_loop_size:
  assumes "fs_plain f" "\<forall>d\<in>set stack. d \<noteq> []"
  shows "fst (measure_loop f stack sz mt) = sz + (\<Sum>d\<leftarrow>stack. bytes_below f d)"
  using assms
proof (induction f stack sz mt rule: measure_loop.induct)
  case (1 f stack sz mt)
  note simps = measure_loop.simps[of f stack sz mt]
  show ?case
  proof (cases "stack = []")
    case True
    then show ?thesis using simps by simp
  next
    case False
    let ?d = "last stack"
    have d: "?d \<noteq> []" and wf: "fs_wf f" and dn: "deny f = []"
      using "1.prems" False by (simp_all add: fs_plain_def)
    have split: "(\<Sum>d\<leftarrow>stack. bytes_below f d) = (\<Sum>d\<leftarrow>butlast stack. bytes_below f d) + bytes_below f ?d"
      using arg_cong[OF append_butlast_last_id[OF False], of "\<lambda>s. \<Sum>d\<leftarrow>s. bytes_below f d", symmetric] by simp
    have rest: "\<forall>d\<in>set (butlast stack). d \<noteq> []" using "1.prems"(2) by (auto dest: in_set_butlastD)
    show ?thesis
    proof (cases "fs_read_dir f ?d")
      case (Inl e)
      then have "fs_lookup f ?d \<noteq> Some Dir"
        using dn by (auto simp: fs_read_dir_def fs_stat_plain split: option.splits node.splits)
      then have "bytes_below f ?d = 0" using nothing_below[OF wf d] by (simp add: bytes_below_def)
      then show ?thesis using "1.IH"(1)[OF False Inl "1.prems"(1) rest] simps split Inl False by simp
    next
      case (Inr xs)
      obtain st sz' mt' where m: "measure_dir f ?d xs (butlast stack) sz mt = (st, sz', mt')"
        by (metis prod.exhaust)
      have xs: "xs = child_names f ?d" using Inr by (simp add: fs_read_dir_Inr)
      have st: "st = butlast stack @ map (child ?d) (filter (\<lambda>x. fs_stat f (child ?d x) = Inr Dir) xs)"
        using measure_dir_stack[of f ?d xs "butlast stack" sz mt] m by simp
      have sz': "sz' = sz + (\<Sum>x\<leftarrow>xs. node_bytes (fs_lookup f (child ?d x)))"
        using measure_dir_size[OF dn, of ?d xs "butlast stack" sz mt] m by simp
      have "fst (measure_loop f st sz' mt') = sz' + (\<Sum>d\<leftarrow>st. bytes_below f d)"
        using "1.IH"(2)[OF False Inr m[symmetric] refl "1.prems"(1)] st rest by auto
      then show ?thesis
        using simps split Inr False m st sz' measured_children[OF "1.prems"(1) d, folded xs]
        by (simp add: sum_list_addf comp_def)
    qed
  qed
qed

section \<open>What the search finds\<close>

text \<open>\<open>mirror_under f d m\<close>: starting from \<open>d\<close>, the outermost directory with a \<open>HEAD\<close> file on a path of
  namespace directories is \<open>m\<close>.\<close>

inductive mirror_under :: "fs \<Rightarrow> fpath \<Rightarrow> fpath \<Rightarrow> bool" for f :: fs where
  here: "fs_is_file f (child d ''HEAD'') \<Longrightarrow> mirror_under f d d"
| down: "\<not> fs_is_file f (child d ''HEAD'') \<Longrightarrow> fs_read_dir f d = Inr xs \<Longrightarrow> x \<in> set xs \<Longrightarrow>
    namespace_dir f d x \<Longrightarrow> mirror_under f (child d x) m \<Longrightarrow> mirror_under f d m"

inductive_simps mirror_under_unfold: "mirror_under f d m"

text \<open>The scan record of a mirror.\<close>

definition scanned_mirror :: "fs \<Rightarrow> fpath \<Rightarrow> fpath \<Rightarrow> Scanned" where
  "scanned_mirror f root m =
     \<lparr>sc_name = rel_name root m, sc_size = fst (measure_tree f m), sc_mtime = snd (measure_tree f m)\<rparr>"

text \<open>The search directory by directory, and an induction over it: \<open>d\<close> is the top of the stack.\<close>

lemma find_mirrors_loop_steps:
  "find_mirrors_loop f root [] out = out"
  "fs_is_file f (child d ''HEAD'') \<Longrightarrow> rel_name root d = [] \<Longrightarrow>
     find_mirrors_loop f root (stack @ [d]) out = find_mirrors_loop f root stack out"
  "fs_is_file f (child d ''HEAD'') \<Longrightarrow> rel_name root d \<noteq> [] \<Longrightarrow>
     find_mirrors_loop f root (stack @ [d]) out = find_mirrors_loop f root stack (out @ [scanned_mirror f root d])"
  "\<not> fs_is_file f (child d ''HEAD'') \<Longrightarrow> fs_read_dir f d = Inl e \<Longrightarrow>
     find_mirrors_loop f root (stack @ [d]) out = find_mirrors_loop f root stack out"
  "\<not> fs_is_file f (child d ''HEAD'') \<Longrightarrow> fs_read_dir f d = Inr xs \<Longrightarrow>
     find_mirrors_loop f root (stack @ [d]) out =
     find_mirrors_loop f root (stack @ map (child d) (filter (namespace_dir f d) xs)) out"
  by (subst find_mirrors_loop.simps; simp add: Let_def case_prod_beta scanned_mirror_def)+

lemma find_mirrors_walk [case_names finish root mirror closed descend]:
  assumes "\<And>out. P [] out"
    and "\<And>d stack out. fs_is_file f (child d ''HEAD'') \<Longrightarrow> rel_name root d = [] \<Longrightarrow> P stack out \<Longrightarrow> P (stack @ [d]) out"
    and "\<And>d stack out. fs_is_file f (child d ''HEAD'') \<Longrightarrow> rel_name root d \<noteq> [] \<Longrightarrow>
      P stack (out @ [scanned_mirror f root d]) \<Longrightarrow> P (stack @ [d]) out"
    and "\<And>d e stack out. \<not> fs_is_file f (child d ''HEAD'') \<Longrightarrow> fs_read_dir f d = Inl e \<Longrightarrow> P stack out \<Longrightarrow> P (stack @ [d]) out"
    and "\<And>d xs stack out. \<not> fs_is_file f (child d ''HEAD'') \<Longrightarrow> fs_read_dir f d = Inr xs \<Longrightarrow>
      P (stack @ map (child d) (filter (namespace_dir f d) xs)) out \<Longrightarrow> P (stack @ [d]) out"
  shows "P stack out"
  using assms
proof (induction f root stack out rule: find_mirrors_loop.induct)
  case (1 f root stack out)
  note rules = "1.prems"
  show ?case
  proof (cases stack rule: rev_cases)
    case (snoc rest d)
    have ne: "stack \<noteq> []" and top: "d = last stack" "rest = butlast stack" using snoc by simp_all
    consider (root) "fs_is_file f (child d ''HEAD'')" "rel_name root d = []"
      | (mirror) "fs_is_file f (child d ''HEAD'')" "rel_name root d \<noteq> []"
      | (closed) e where "\<not> fs_is_file f (child d ''HEAD'')" "fs_read_dir f d = Inl e"
      | (descend) xs where "\<not> fs_is_file f (child d ''HEAD'')" "fs_read_dir f d = Inr xs"
      by (cases "fs_read_dir f d") auto
    then have "P (rest @ [d]) out"
    proof cases
      case root
      show ?thesis by (rule rules(2)[OF root "1.IH"(1)[OF ne top root(1) refl root(2) rules]])
    next
      case mirror
      show ?thesis
        by (rule rules(3)[OF mirror "1.IH"(2)[OF ne top mirror(1) refl mirror(2) prod.collapse rules,
          folded scanned_mirror_def]])
    next
      case closed
      show ?thesis by (rule rules(4)[OF closed "1.IH"(3)[OF ne top closed rules]])
    next
      case descend
      show ?thesis by (rule rules(5)[OF descend "1.IH"(4)[OF ne top descend rules]])
    qed
    then show ?thesis using snoc by simp
  qed (simp add: rules(1))
qed

lemma find_mirrors_loop_set:
  "set (find_mirrors_loop f root stack out) =
     set out \<union> {scanned_mirror f root m |d m. d \<in> set stack \<and> mirror_under f d m \<and> rel_name root m \<noteq> []}"
proof (induction stack out rule: find_mirrors_walk[where f = f and root = root])
  case (root d stack out)
  then have "mirror_under f d m \<longleftrightarrow> m = d" for m by (subst mirror_under_unfold) auto
  then show ?case using root by (auto simp: find_mirrors_loop_steps)
next
  case (mirror d stack out)
  then have "mirror_under f d m \<longleftrightarrow> m = d" for m by (subst mirror_under_unfold) auto
  then show ?case using mirror by (auto simp: find_mirrors_loop_steps)
next
  case (closed d e stack out)
  then have "\<not> mirror_under f d m" for m by (subst mirror_under_unfold) auto
  then show ?case using closed by (auto simp: find_mirrors_loop_steps)
next
  case (descend d xs stack out)
  then have "mirror_under f d m \<longleftrightarrow> (\<exists>x\<in>set xs. namespace_dir f d x \<and> mirror_under f (child d x) m)" for m
    by (subst mirror_under_unfold) auto
  then have "(\<exists>c\<in>set (stack @ [d]). mirror_under f c m) \<longleftrightarrow>
      (\<exists>c\<in>set (stack @ map (child d) (filter (namespace_dir f d) xs)). mirror_under f c m)" for m by auto
  then show ?case unfolding find_mirrors_loop_steps(5)[OF descend.hyps] descend.IH by blast
qed (simp add: find_mirrors_loop_steps)

text \<open>The key of a mirror is the name of its repository.\<close>

lemma rel_name_join:
  assumes "list_all utf8_valid xs"
  shows "rel_name root (root @ map Normal xs) = join_with (CHR ''/'') xs"
proof -
  have "map (\<lambda>c. from_utf8_lossy (component_str c)) (map Normal xs) = xs"
    using assms by (induction xs) (simp_all add: from_utf8_lossy_valid)
  then show ?thesis by (simp add: rel_name_def)
qed

lemma mirror_under_path:
  assumes "fs_is_file f (child (root @ map Normal xs) ''HEAD'')"
    and "\<forall>k<length xs. \<not> fs_is_file f (child (root @ map Normal (take k xs)) ''HEAD'')"
    and "\<forall>x\<in>set xs. \<not> skipped_dir x" "fs_wf f" "deny f = []" "root \<noteq> []"
  shows "mirror_under f root (root @ map Normal xs)"
  using assms
proof (induction xs arbitrary: root)
  case Nil
  then show ?case by (simp add: mirror_under.here)
next
  case (Cons x xs)
  have dir: "fs_lookup f p = Some Dir" if p: "p \<noteq> []" "strict_prefix p (child (root @ map Normal (x # xs)) ''HEAD'')" for p
  proof -
    have head: "fs_lookup f (child (root @ map Normal (x # xs)) ''HEAD'') \<noteq> None"
      using fs_is_file_exists[OF Cons.prems(1)] by (simp add: fs_exists_iff)
    have "paths_below f p \<noteq> {}" using head p(2) unfolding paths_below_def by blast
    then show ?thesis using nothing_below[OF Cons.prems(4) p(1)] by blast
  qed
  have r: "fs_lookup f root = Some Dir" "fs_lookup f (child root x) = Some Dir"
    by (rule dir; use Cons.prems(6) in \<open>simp add: strict_prefix_def\<close>)+
  have "\<forall>k<length xs. \<not> fs_is_file f (child (child root x @ map Normal (take k xs)) ''HEAD'')"
    using Cons.prems(2) by (auto dest: spec[of _ "Suc k" for k])
  then have rest: "mirror_under f (child root x) (child root x @ map Normal xs)"
    using Cons.IH[of "child root x"] Cons.prems by simp
  show ?case
  proof (rule mirror_under.down)
    show "\<not> fs_is_file f (child root ''HEAD'')" using Cons.prems(2) by (auto dest: spec[of _ 0])
    show "fs_read_dir f root = Inr (child_names f root)"
      using r Cons.prems(5) by (simp add: fs_read_dir_Inr)
    show "x \<in> set (child_names f root)" "namespace_dir f root x"
      using r Cons.prems(3) by (simp_all add: child_names_iff namespace_dir_def)
    show "mirror_under f (child root x) (root @ map Normal (x # xs))" using rest by simp
  qed
qed

lemma fs_plainI:
  assumes "deny f = []"
    and "list_all (\<lambda>(q, _). length q \<le> 1 \<or> fs_lookup f (butlast q) = Some Dir) (entries f)"
    and "list_all (\<lambda>(q, _). list_all (\<lambda>c. case c of Normal _ \<Rightarrow> True | _ \<Rightarrow> False) (tl q)) (entries f)"
  shows "fs_plain f"
  unfolding fs_plain_def
proof (intro conjI allI impI)
  fix q assume "fs_lookup f q \<noteq> None"
  then obtain n where "(q, n) \<in> set (entries f)" by (auto simp: fs_lookup_def dest: map_of_SomeD)
  then show "list_all (\<lambda>c. case c of Normal _ \<Rightarrow> True | _ \<Rightarrow> False) (tl q)"
    using assms(3) by (auto simp: list_all_iff)
qed (use assms fs_wfI in simp_all)

text \<open>A small cache directory with one mirror, for the witnesses.\<close>

definition sample_fs :: fs where
  "sample_fs =
     \<lparr>entries = [([RootDir], Dir), ([RootDir, Normal ''c''], Dir), ([RootDir, Normal ''c'', Normal ''g''], Dir),
        ([RootDir, Normal ''c'', Normal ''g'', Normal ''r''], Dir),
        ([RootDir, Normal ''c'', Normal ''g'', Normal ''r'', Normal ''HEAD''], File ''ref: x'' 7),
        ([RootDir, Normal ''c'', Normal ''g'', Normal ''r'', Normal ''p''], Dir),
        ([RootDir, Normal ''c'', Normal ''g'', Normal ''r'', Normal ''p'', Normal ''a''], File ''pack'' 9)], deny = []\<rparr>"

lemma sample_fs_plain: "fs_plain sample_fs"
  by (rule fs_plainI) (simp_all add: sample_fs_def fs_lookup_def)

section \<open>Properties\<close>

text \<open>C25: Measuring a directory returns, modulo 64 bits, the sum of the lengths of all files below it, at any
  depth, each counted once.\<close>

theorem measure_tree_total:
  assumes "fs_plain f" "dir \<noteq> []"
  shows "fst (measure_tree f dir) =
    (\<Sum>q\<in>{q. strict_prefix dir q \<and> fs_lookup f q \<noteq> None}. node_bytes (fs_lookup f q))"
  using measure_loop_size[OF assms(1), of "[dir]" 0 0] assms(2)
  by (simp add: measure_tree_def bytes_below_def paths_below_def)

theorem measure_tree_total_witness:
  "fst (measure_tree sample_fs [RootDir, Normal ''c'', Normal ''g'']) = 10 \<and>
   (\<Sum>q\<in>{q. strict_prefix [RootDir, Normal ''c'', Normal ''g''] q \<and> fs_lookup sample_fs q \<noteq> None}.
      node_bytes (fs_lookup sample_fs q)) = 10"
proof -
  have "fst (measure_tree sample_fs [RootDir, Normal ''c'', Normal ''g'']) = 10" by code_simp
  then show ?thesis
    using measure_tree_total[OF sample_fs_plain, of "[RootDir, Normal ''c'', Normal ''g'']"] by simp
qed

text \<open>C27: The startup scan finds exactly the mirrors: the outermost directories with a \<open>HEAD\<close> file that can
  be reached through directories that are not reserved, the root itself excepted, each with its
  measured size.\<close>

theorem find_mirrors_exact:
  "set (find_mirrors f root) =
     {scanned_mirror f root m |m. mirror_under f root m \<and> rel_name root m \<noteq> []}"
  using find_mirrors_loop_set[of f root "[root]" "[]"] by (auto simp: find_mirrors_def)



end
