(* ===== verification/Evict.thy ===== *)
theory Evict
  imports Lru Scan
begin

text \<open>
  The cache index of \<^verbatim>\<open>src/src/evict.rs\<close>: \<open>CacheIndex\<close> and its methods. Every method that touches the state
  does so in one critical section of its mutex, so an execution of the program is a sequence of these
  operations. The calls to the metrics are returned beside the new state.

  The lemmas of the locale \<open>lru_laws\<close> describe each operation by what it does to the list of entries in
  recency order, and keep the invariant \<open>index_ok\<close>: names are unique and the running total is the sum of the
  sizes (in 64 bits).
\<close>

section \<open>Definitions\<close>

definition RECONCILE_INTERVAL :: nat where
  "RECONCILE_INTERVAL = 60"

record 'l Inner =
  in_cache :: 'l
  in_dirty :: "string set"
  in_total :: u64

record 'l CacheIndex =
  ci_root :: string
  ci_max_bytes :: u64
  ci_work :: bool
  ci_state :: "'l Inner"

definition set_gauges :: "'l lru_ops \<Rightarrow> 'l Inner \<Rightarrow> metric_call list" where
  "set_gauges L inner = set_cache_size (in_total inner) (word_of_nat (lru_len L (in_cache inner)))"

text \<open>\<open>Notify::notify_one\<close> stores one permit.\<close>

definition notify_one :: "'l CacheIndex \<Rightarrow> 'l CacheIndex" where
  "notify_one idx = idx\<lparr>ci_work := True\<rparr>"

definition startup_entries :: "fs \<Rightarrow> string \<Rightarrow> Scanned list" where
  "startup_entries f root =
     sort_key sc_mtime (find_mirrors f (components root) @ find_lfs_blobs f (components root))"

fun load_entries :: "'l lru_ops \<Rightarrow> Scanned list \<Rightarrow> 'l \<Rightarrow> u64 \<Rightarrow> 'l \<times> u64" where
  "load_entries L [] cache tot = (cache, tot)"
| "load_entries L (m # ms) cache tot =
     load_entries L ms (snd (lru_put L (sc_name m) (sc_size m) cache)) (tot + sc_size m)"

definition CacheIndex_new :: "'l lru_ops \<Rightarrow> fs \<Rightarrow> string \<Rightarrow> u64 \<Rightarrow> 'l CacheIndex \<times> metric_call list" where
  "CacheIndex_new L f root max_bytes =
     (case load_entries L (startup_entries f root) (lru_unbounded L) 0 of
        (cache, tot) \<Rightarrow>
          let inner = \<lparr>in_cache = cache, in_dirty = {}, in_total = tot\<rparr>;
              idx = \<lparr>ci_root = root, ci_max_bytes = max_bytes, ci_work = False, ci_state = inner\<rparr> in
          (if tot > max_bytes then notify_one idx else idx, set_gauges L inner))"

definition touch :: "'l lru_ops \<Rightarrow> string \<Rightarrow> 'l CacheIndex \<Rightarrow> 'l CacheIndex" where
  "touch L k idx =
     idx\<lparr>ci_state := (ci_state idx)\<lparr>in_cache := snd (lru_get L k (in_cache (ci_state idx)))\<rparr>\<rparr>"

definition record_blob ::
  "'l lru_ops \<Rightarrow> string \<Rightarrow> u64 \<Rightarrow> 'l CacheIndex \<Rightarrow> 'l CacheIndex \<times> metric_call list" where
  "record_blob L key sz idx =
     (case lru_put L key sz (in_cache (ci_state idx)) of
        (old, cache) \<Rightarrow>
          let inner = (ci_state idx)\<lparr>in_cache := cache,
                in_total := in_total (ci_state idx) - (case old of None \<Rightarrow> 0 | Some v \<Rightarrow> v) + sz\<rparr> in
          (notify_one (idx\<lparr>ci_state := inner\<rparr>), set_gauges L inner))"

definition mark_changed :: "'l lru_ops \<Rightarrow> string \<Rightarrow> 'l CacheIndex \<Rightarrow> 'l CacheIndex \<times> metric_call list" where
  "mark_changed L k idx =
     (case lru_get L k (in_cache (ci_state idx)) of
        (found, cache) \<Rightarrow>
          let cache' = (if found = None then snd (lru_put L k 0 cache) else cache);
              inner = (ci_state idx)\<lparr>in_cache := cache', in_dirty := insert k (in_dirty (ci_state idx))\<rparr> in
          (notify_one (idx\<lparr>ci_state := inner\<rparr>), set_gauges L inner))"

definition index_cache_dir :: "'l CacheIndex \<Rightarrow> string \<Rightarrow> string" where
  "index_cache_dir idx k = path_join (ci_root idx) k"

definition totals :: "'l lru_ops \<Rightarrow> 'l CacheIndex \<Rightarrow> u64 \<times> nat" where
  "totals L idx = (in_total (ci_state idx), lru_len L (in_cache (ci_state idx)))"

text \<open>\<open>HashSet::drain\<close> yields the elements in an order of its own, given by \<open>order\<close>.\<close>

definition take_dirty :: "(string set \<Rightarrow> string list) \<Rightarrow> 'l CacheIndex \<Rightarrow> string list \<times> 'l CacheIndex" where
  "take_dirty order idx =
     (order (in_dirty (ci_state idx)), idx\<lparr>ci_state := (ci_state idx)\<lparr>in_dirty := {}\<rparr>\<rparr>)"

definition set_size :: "'l lru_ops \<Rightarrow> string \<Rightarrow> u64 \<Rightarrow> 'l CacheIndex \<Rightarrow> 'l CacheIndex \<times> metric_call list" where
  "set_size L k sz idx =
     (case lru_peek L k (in_cache (ci_state idx)) of
        None \<Rightarrow> (idx, [])
      | Some old \<Rightarrow>
          let inner = (ci_state idx)\<lparr>in_total := in_total (ci_state idx) - old + sz,
                in_cache := lru_peek_mut L k sz (in_cache (ci_state idx))\<rparr> in
          (idx\<lparr>ci_state := inner\<rparr>, set_gauges L inner))"

text \<open>The eviction loop. That it ends depends on \<open>pop_lru\<close>, which is not the program's: not ending is
  \<open>None\<close>.\<close>

partial_function (option) take_victims_loop ::
  "'l lru_ops \<Rightarrow> string \<Rightarrow> u64 \<Rightarrow> 'l \<Rightarrow> u64 \<Rightarrow> (string \<times> string) list \<Rightarrow>
     ('l \<times> u64 \<times> (string \<times> string) list) option" where
  "take_victims_loop L root max_bytes cache tot victims =
     (if tot > max_bytes then
        (case lru_pop_lru L cache of
           (None, cache') \<Rightarrow> Some (cache', tot, victims)
         | (Some (k, sz), cache') \<Rightarrow>
             take_victims_loop L root max_bytes cache' (tot - sz) (victims @ [(k, path_join root k)]))
      else Some (cache, tot, victims))"

declare take_victims_loop.simps [code]

definition take_victims ::
  "'l lru_ops \<Rightarrow> 'l CacheIndex \<Rightarrow> ((string \<times> string) list \<times> 'l CacheIndex \<times> metric_call list) option" where
  "take_victims L idx =
     (case take_victims_loop L (ci_root idx) (ci_max_bytes idx) (in_cache (ci_state idx))
             (in_total (ci_state idx)) [] of
        None \<Rightarrow> None
      | Some (cache, tot, victims) \<Rightarrow>
          let inner = (ci_state idx)\<lparr>in_cache := cache, in_total := tot\<rparr> in
          Some (victims, idx\<lparr>ci_state := inner\<rparr>, set_gauges L inner))"

text \<open>\<open>reconcile_missing\<close> takes a snapshot under the lock, examines the file system without it, and takes the
  lock again to drop what is gone.\<close>

definition reconcile_tracked :: "'l lru_ops \<Rightarrow> 'l CacheIndex \<Rightarrow> (string \<times> string) list" where
  "reconcile_tracked L idx =
     map (\<lambda>(k, _). (k, index_cache_dir idx k)) (lru_iter L (in_cache (ci_state idx)))"

definition reconcile_gone :: "fs \<Rightarrow> (string \<times> string) list \<Rightarrow> string list" where
  "reconcile_gone f tracked =
     map fst (filter (\<lambda>(_, dir). fs_stat f (components dir) = Inl NotFound) tracked)"

fun drop_missing :: "'l lru_ops \<Rightarrow> string list \<Rightarrow> 'l Inner \<Rightarrow> 'l Inner" where
  "drop_missing L [] inner = inner"
| "drop_missing L (k # ks) inner =
     drop_missing L ks
       (if k \<in> in_dirty inner then inner
        else (case lru_pop L k (in_cache inner) of
                (None, cache) \<Rightarrow> inner\<lparr>in_cache := cache\<rparr>
              | (Some sz, cache) \<Rightarrow> inner\<lparr>in_cache := cache, in_total := in_total inner - sz\<rparr>))"

definition reconcile_apply ::
  "'l lru_ops \<Rightarrow> string list \<Rightarrow> 'l CacheIndex \<Rightarrow> 'l CacheIndex \<times> metric_call list" where
  "reconcile_apply L missing idx =
     (if missing = [] then (idx, [])
      else let inner = drop_missing L missing (ci_state idx) in
        (idx\<lparr>ci_state := inner\<rparr>, set_gauges L inner))"

text \<open>The whole of \<open>reconcile_missing\<close>; \<open>joined\<close> is whether the blocking task was joined.\<close>

definition reconcile_missing ::
  "'l lru_ops \<Rightarrow> fs \<Rightarrow> bool \<Rightarrow> 'l CacheIndex \<Rightarrow> 'l CacheIndex \<times> metric_call list" where
  "reconcile_missing L f joined idx =
     (let tracked = reconcile_tracked L idx in
      if tracked = [] then (idx, [])
      else reconcile_apply L (if joined then reconcile_gone f tracked else []) idx)"

definition is_lfs_blob :: "string \<Rightarrow> bool" where
  "is_lfs_blob k \<longleftrightarrow> hd (split_on (CHR ''/'') k) = LFS_OBJECTS_DIR"

section \<open>The index as a list\<close>

text \<open>The entries in recency order, and the invariant.\<close>

abbreviation entries_of :: "'l lru_ops \<Rightarrow> 'l CacheIndex \<Rightarrow> (string \<times> u64) list" where
  "entries_of L idx \<equiv> lru_iter L (in_cache (ci_state idx))"

definition inner_ok :: "'l lru_ops \<Rightarrow> 'l Inner \<Rightarrow> bool" where
  "inner_ok L inner \<longleftrightarrow>
     distinct (keys (lru_iter L (in_cache inner))) \<and> in_total inner = sizes (lru_iter L (in_cache inner))"

definition index_ok :: "'l lru_ops \<Rightarrow> 'l CacheIndex \<Rightarrow> bool" where
  "index_ok L idx \<longleftrightarrow> inner_ok L (ci_state idx)"

text \<open>The metrics calls that publish a state.\<close>

definition gauges_of :: "(string \<times> u64) list \<Rightarrow> metric_call list" where
  "gauges_of xs = set_cache_size (sizes xs) (word_of_nat (length xs))"

context lru_laws begin

lemma set_gauges_ok: "inner_ok L inner \<Longrightarrow> set_gauges L inner = gauges_of (lru_iter L (in_cache inner))"
  by (simp add: set_gauges_def gauges_of_def inner_ok_def len_law)

lemma touch_refines:
  assumes "index_ok L idx"
  shows "entries_of L (touch L k idx) = promote k (entries_of L idx)" "index_ok L (touch L k idx)"
proof -
  show e: "entries_of L (touch L k idx) = promote k (entries_of L idx)"
    using get_law[of "in_cache (ci_state idx)" k] assms
    by (cases "lru_get L k (in_cache (ci_state idx))") (auto simp: touch_def index_ok_def inner_ok_def)
  show "index_ok L (touch L k idx)"
    using e assms by (simp add: index_ok_def inner_ok_def touch_def distinct_promote sizes_promote)
qed

lemma record_blob_refines:
  assumes "index_ok L idx" "record_blob L k sz idx = (idx', calls)"
  shows "entries_of L idx' = (k, sz) # drop_key k (entries_of L idx)" "index_ok L idx'"
    "calls = gauges_of (entries_of L idx')" "ci_work idx'"
proof -
  let ?c = "in_cache (ci_state idx)"
  have ok: "distinct (keys (lru_iter L ?c))" "in_total (ci_state idx) = sizes (lru_iter L ?c)"
    using assms(1) by (simp_all add: index_ok_def inner_ok_def)
  obtain old cache where put: "lru_put L k sz ?c = (old, cache)" by force
  note law = put_law[OF ok(1) put]
  let ?inner = "(ci_state idx)\<lparr>in_cache := cache,
      in_total := in_total (ci_state idx) - (case old of None \<Rightarrow> 0 | Some v \<Rightarrow> v) + sz\<rparr>"
  have i: "inner_ok L ?inner"
    using law ok by (auto simp: inner_ok_def distinct_drop_key sizes_drop_key set_drop_key)
  have r: "idx' = notify_one (idx\<lparr>ci_state := ?inner\<rparr>)" "calls = set_gauges L ?inner"
    using assms(2) put by (auto simp: record_blob_def Let_def)
  show "entries_of L idx' = (k, sz) # drop_key k (entries_of L idx)" "index_ok L idx'" "ci_work idx'"
    using law i by (simp_all add: r notify_one_def index_ok_def)
  show "calls = gauges_of (entries_of L idx')"
    using set_gauges_ok[OF i] by (simp add: r notify_one_def)
qed

lemma mark_changed_refines:
  assumes "index_ok L idx" "mark_changed L k idx = (idx', calls)"
  shows "entries_of L idx' =
      (case map_of (entries_of L idx) k of None \<Rightarrow> (k, 0) # entries_of L idx | Some _ \<Rightarrow> promote k (entries_of L idx))"
    "index_ok L idx'" "calls = gauges_of (entries_of L idx')" "ci_work idx'" "k \<in> in_dirty (ci_state idx')"
proof -
  let ?c = "in_cache (ci_state idx)"
  have ok: "distinct (keys (lru_iter L ?c))" "in_total (ci_state idx) = sizes (lru_iter L ?c)"
    using assms(1) by (simp_all add: index_ok_def inner_ok_def)
  obtain found cache where get: "lru_get L k ?c = (found, cache)" by force
  note law = get_law[OF ok(1) get]
  let ?cache = "if found = None then snd (lru_put L k 0 cache) else cache"
  let ?inner = "(ci_state idx)\<lparr>in_cache := ?cache, in_dirty := insert k (in_dirty (ci_state idx))\<rparr>"
  have it: "lru_iter L ?cache = (case map_of (lru_iter L ?c) k of
      None \<Rightarrow> (k, 0) # lru_iter L ?c | Some _ \<Rightarrow> promote k (lru_iter L ?c))"
  proof (cases "map_of (lru_iter L ?c) k")
    case None
    obtain old cache' where put: "lru_put L k 0 cache = (old, cache')" by force
    have "lru_iter L cache = lru_iter L ?c" using None law by (simp add: promote_def)
    then show ?thesis
      using None law put_law[OF _ put] ok(1) put drop_key_absent[OF None] by simp
  next
    case (Some v)
    then show ?thesis using law by simp
  qed
  have i: "inner_ok L ?inner"
    using ok by (auto simp: inner_ok_def it distinct_promote sizes_promote dest: weak_map_of_SomeI
        split: option.split)
  have r: "idx' = notify_one (idx\<lparr>ci_state := ?inner\<rparr>)" "calls = set_gauges L ?inner"
    using assms(2) get by (auto simp: mark_changed_def Let_def)
  show "entries_of L idx' =
      (case map_of (entries_of L idx) k of None \<Rightarrow> (k, 0) # entries_of L idx | Some _ \<Rightarrow> promote k (entries_of L idx))"
    "index_ok L idx'" "ci_work idx'" "k \<in> in_dirty (ci_state idx')"
    using it i by (simp_all add: r notify_one_def index_ok_def)
  show "calls = gauges_of (entries_of L idx')"
    using set_gauges_ok[OF i] by (simp add: r notify_one_def)
qed

lemma set_size_refines:
  assumes "index_ok L idx" "set_size L k sz idx = (idx', calls)"
  shows "entries_of L idx' = overwrite k sz (entries_of L idx)" "index_ok L idx'"
    "calls = (if map_of (entries_of L idx) k = None then [] else gauges_of (entries_of L idx'))"
proof -
  let ?c = "in_cache (ci_state idx)"
  have ok: "distinct (keys (lru_iter L ?c))" "in_total (ci_state idx) = sizes (lru_iter L ?c)"
    using assms(1) by (simp_all add: index_ok_def inner_ok_def)
  have peek: "lru_peek L k ?c = map_of (lru_iter L ?c) k" using peek_law[OF ok(1)] .
  have "entries_of L idx' = overwrite k sz (entries_of L idx) \<and> index_ok L idx' \<and>
    calls = (if map_of (entries_of L idx) k = None then [] else gauges_of (entries_of L idx'))"
  proof (cases "map_of (lru_iter L ?c) k")
    case None
    then show ?thesis using assms peek by (auto simp: set_size_def overwrite_absent)
  next
    case (Some old)
    let ?inner = "(ci_state idx)\<lparr>in_total := in_total (ci_state idx) - old + sz,
        in_cache := lru_peek_mut L k sz ?c\<rparr>"
    have it: "lru_iter L (lru_peek_mut L k sz ?c) = overwrite k sz (lru_iter L ?c)"
      using peek_mut_law[OF ok(1)] .
    have i: "inner_ok L ?inner"
      using ok Some by (simp add: inner_ok_def it sizes_overwrite)
    have r: "idx' = idx\<lparr>ci_state := ?inner\<rparr>" "calls = set_gauges L ?inner"
      using assms(2) Some peek by (auto simp: set_size_def Let_def)
    show ?thesis using it i Some set_gauges_ok[OF i] by (simp add: r index_ok_def)
  qed
  then show "entries_of L idx' = overwrite k sz (entries_of L idx)" "index_ok L idx'"
    "calls = (if map_of (entries_of L idx) k = None then [] else gauges_of (entries_of L idx'))" by blast+
qed

text \<open>The eviction loop pops entries off the end of the list while the sizes of what is left exceed the
  cap; with \<open>n\<close> entries it ends after at most \<open>n\<close> pops.\<close>

lemma take_victims_loop_tail:
  assumes "distinct (keys (lru_iter L c))" "tot = sizes (lru_iter L c)"
  shows "\<exists>c' out. take_victims_loop L root cap c tot victims =
      Some (c', sizes (lru_iter L c'), victims @ map (\<lambda>(k, _). (k, path_join root k)) (rev out)) \<and>
    lru_iter L c = lru_iter L c' @ out \<and> sizes (lru_iter L c') \<le> cap \<and>
    (\<forall>j<length out. sizes (lru_iter L c' @ take (Suc j) out) > cap)"
  using assms
proof (induction "length (lru_iter L c)" arbitrary: c tot victims)
  case 0
  then show ?case by (intro exI[of _ c] exI[of _ "[]"]) (simp add: take_victims_loop.simps)
next
  case (Suc n)
  show ?case
  proof (cases "tot > cap")
    case False
    then show ?thesis
      using Suc.prems by (intro exI[of _ c] exI[of _ "[]"]) (simp add: take_victims_loop.simps)
  next
    case True
    let ?xs = "lru_iter L c"
    obtain e c1 where pop: "lru_pop_lru L c = (e, c1)" by force
    obtain k v where kv: "last ?xs = (k, v)" by force
    have ne: "?xs \<noteq> []" using Suc.hyps(2) by auto
    then have e: "e = Some (k, v)" "lru_iter L c1 = butlast ?xs"
      using pop_lru_law[OF Suc.prems(1) pop] kv by auto
    have xs: "?xs = lru_iter L c1 @ [(k, v)]" using ne e(2) kv by (metis append_butlast_last_id)
    have sz: "tot - v = sizes (lru_iter L c1)" using Suc.prems(2) unfolding xs by simp
    have d: "distinct (keys (lru_iter L c1))" using Suc.prems(1) unfolding xs by simp
    have "n = length (lru_iter L c1)" using Suc.hyps(2) unfolding xs by simp
    from Suc.hyps(1)[OF this d refl, of "victims @ [(k, path_join root k)]"] obtain c' out where IH:
      "take_victims_loop L root cap c1 (tot - v) (victims @ [(k, path_join root k)]) =
         Some (c', sizes (lru_iter L c'),
           (victims @ [(k, path_join root k)]) @ map (\<lambda>(k, _). (k, path_join root k)) (rev out))"
      "lru_iter L c1 = lru_iter L c' @ out" "sizes (lru_iter L c') \<le> cap"
      "\<forall>j<length out. sizes (lru_iter L c' @ take (Suc j) out) > cap" unfolding sz by blast
    have "take_victims_loop L root cap c tot victims =
        take_victims_loop L root cap c1 (tot - v) (victims @ [(k, path_join root k)])"
      by (subst take_victims_loop.simps) (simp add: True pop e(1))
    moreover have "sizes (lru_iter L c' @ take (Suc j) (out @ [(k, v)])) > cap" if "j < Suc (length out)" for j
    proof (cases "j < length out")
      case False
      then have "lru_iter L c' @ take (Suc j) (out @ [(k, v)]) = ?xs" using that IH(2) xs by simp
      then show ?thesis using True Suc.prems(2) by metis
    qed (use IH(4) in simp)
    ultimately show ?thesis
      using IH xs by (intro exI[of _ c'] exI[of _ "out @ [(k, v)]"]) simp
  qed
qed

lemma take_victims_refines:
  assumes "index_ok L idx"
  shows "\<exists>out idx'. take_victims L idx =
      Some (map (\<lambda>(k, _). (k, index_cache_dir idx k)) (rev out), idx', gauges_of (entries_of L idx')) \<and>
    index_ok L idx' \<and> entries_of L idx = entries_of L idx' @ out \<and>
    sizes (entries_of L idx') \<le> ci_max_bytes idx \<and>
    (\<forall>j<length out. sizes (entries_of L idx' @ take (Suc j) out) > ci_max_bytes idx) \<and>
    ci_max_bytes idx' = ci_max_bytes idx \<and> ci_root idx' = ci_root idx \<and>
    in_dirty (ci_state idx') = in_dirty (ci_state idx)"
proof -
  let ?c = "in_cache (ci_state idx)"
  have ok: "distinct (keys (lru_iter L ?c))" "in_total (ci_state idx) = sizes (lru_iter L ?c)"
    using assms by (simp_all add: index_ok_def inner_ok_def)
  obtain c' out where loop:
    "take_victims_loop L (ci_root idx) (ci_max_bytes idx) ?c (in_total (ci_state idx)) [] =
      Some (c', sizes (lru_iter L c'), map (\<lambda>(k, _). (k, path_join (ci_root idx) k)) (rev out))"
    "lru_iter L ?c = lru_iter L c' @ out" "sizes (lru_iter L c') \<le> ci_max_bytes idx"
    "\<forall>j<length out. sizes (lru_iter L c' @ take (Suc j) out) > ci_max_bytes idx"
    using take_victims_loop_tail[OF ok, of "ci_root idx" "ci_max_bytes idx" "[]"] by auto
  let ?inner = "(ci_state idx)\<lparr>in_cache := c', in_total := sizes (lru_iter L c')\<rparr>"
  have i: "inner_ok L ?inner" using ok(1) loop(2) by (simp add: inner_ok_def)
  show ?thesis
    using loop i set_gauges_ok[OF i]
    by (intro exI[of _ out] exI[of _ "idx\<lparr>ci_state := ?inner\<rparr>"])
      (simp add: take_victims_def index_ok_def index_cache_dir_def Let_def)
qed

text \<open>Reconciliation drops the entries it is given, except those marked dirty since.\<close>

lemma drop_missing_refines:
  assumes "inner_ok L inner"
  shows "inner_ok L (drop_missing L ks inner) \<and> in_dirty (drop_missing L ks inner) = in_dirty inner \<and>
    lru_iter L (in_cache (drop_missing L ks inner)) =
      filter (\<lambda>(k, _). k \<notin> set ks \<or> k \<in> in_dirty inner) (lru_iter L (in_cache inner))"
  using assms
proof (induction ks arbitrary: inner)
  case (Cons k ks)
  have ok: "distinct (keys (lru_iter L (in_cache inner)))" "in_total inner = sizes (lru_iter L (in_cache inner))"
    using Cons.prems by (simp_all add: inner_ok_def)
  show ?case
  proof (cases "k \<in> in_dirty inner")
    case True
    then show ?thesis using Cons.IH[OF Cons.prems] by (auto intro!: filter_cong)
  next
    case False
    obtain r cache where pop: "lru_pop L k (in_cache inner) = (r, cache)" by force
    note law = pop_law[OF ok(1) pop]
    let ?inner = "case r of None \<Rightarrow> inner\<lparr>in_cache := cache\<rparr>
       | Some sz \<Rightarrow> inner\<lparr>in_cache := cache, in_total := in_total inner - sz\<rparr>"
    have step: "drop_missing L (k # ks) inner = drop_missing L ks ?inner"
      using False pop by (simp split: option.split)
    have it: "lru_iter L (in_cache ?inner) = drop_key k (lru_iter L (in_cache inner))"
      "in_dirty ?inner = in_dirty inner"
      using law by (simp_all split: option.split)
    have "inner_ok L ?inner"
      using law ok by (simp add: inner_ok_def distinct_drop_key sizes_drop_key split: option.split)
    from Cons.IH[OF this] show ?thesis
      unfolding step it using False by (auto simp: drop_key_def intro!: filter_cong)
  qed
qed simp

lemma reconcile_apply_refines:
  assumes "index_ok L idx" "reconcile_apply L ks idx = (idx', calls)"
  shows "entries_of L idx' = filter (\<lambda>(k, _). k \<notin> set ks \<or> k \<in> in_dirty (ci_state idx)) (entries_of L idx)"
    "index_ok L idx'" "calls = (if ks = [] then [] else gauges_of (entries_of L idx'))"
    "in_dirty (ci_state idx') = in_dirty (ci_state idx)"
proof -
  let ?inner = "drop_missing L ks (ci_state idx)"
  have i: "inner_ok L (ci_state idx)" using assms(1) by (simp add: index_ok_def)
  note d = drop_missing_refines[OF i, of ks]
  have r: "idx' = (if ks = [] then idx else idx\<lparr>ci_state := ?inner\<rparr>)"
    "calls = (if ks = [] then [] else set_gauges L ?inner)"
    using assms(2) by (simp_all add: reconcile_apply_def Let_def split: if_splits)
  show "entries_of L idx' = filter (\<lambda>(k, _). k \<notin> set ks \<or> k \<in> in_dirty (ci_state idx)) (entries_of L idx)"
    "index_ok L idx'" "calls = (if ks = [] then [] else gauges_of (entries_of L idx'))"
    "in_dirty (ci_state idx') = in_dirty (ci_state idx)"
    using d i set_gauges_ok[of ?inner] by (simp_all add: r index_ok_def)
qed

text \<open>Loading puts the scanned entries into the list one by one.\<close>

lemma load_entries_refines:
  assumes "distinct (map sc_name ms)" "distinct (keys (lru_iter L c))"
    "set (map sc_name ms) \<inter> set (keys (lru_iter L c)) = {}" "tot = sizes (lru_iter L c)"
    "load_entries L ms c tot = (c', tot')"
  shows "lru_iter L c' = rev (map (\<lambda>m. (sc_name m, sc_size m)) ms) @ lru_iter L c \<and> tot' = sizes (lru_iter L c')"
  using assms
proof (induction ms arbitrary: c tot)
  case (Cons m ms)
  obtain r c1 where put: "lru_put L (sc_name m) (sc_size m) c = (r, c1)" by force
  have new: "map_of (lru_iter L c) (sc_name m) = None"
    using Cons.prems(3) by (auto simp: map_of_eq_None_iff)
  have it: "lru_iter L c1 = (sc_name m, sc_size m) # lru_iter L c"
    using put_law[OF Cons.prems(2) put] drop_key_absent[OF new] by simp
  have "lru_iter L c' = rev (map (\<lambda>m. (sc_name m, sc_size m)) ms) @ lru_iter L c1 \<and> tot' = sizes (lru_iter L c')"
  proof (rule Cons.IH)
    show "load_entries L ms c1 (tot + sc_size m) = (c', tot')" using Cons.prems(5) put by simp
  qed (use Cons.prems(1-4) it in \<open>auto simp: add.commute\<close>)
  then show ?case using it by simp
qed simp

lemma CacheIndex_new_refines:
  assumes "distinct (map sc_name (startup_entries f root))" "CacheIndex_new L f root cap = (idx, calls)"
  shows "entries_of L idx = rev (map (\<lambda>m. (sc_name m, sc_size m)) (startup_entries f root))" "index_ok L idx"
    "calls = gauges_of (entries_of L idx)" "ci_work idx \<longleftrightarrow> sizes (entries_of L idx) > cap"
    "ci_root idx = root" "ci_max_bytes idx = cap" "in_dirty (ci_state idx) = {}"
proof -
  let ?ms = "startup_entries f root"
  obtain c tot where load: "load_entries L ?ms (lru_unbounded L) 0 = (c, tot)" by force
  have c: "lru_iter L c = rev (map (\<lambda>m. (sc_name m, sc_size m)) ?ms)" "tot = sizes (lru_iter L c)"
    using load_entries_refines[OF assms(1) _ _ _ load] by (simp_all add: iter_unbounded)
  let ?inner = "\<lparr>in_cache = c, in_dirty = {}, in_total = tot\<rparr>"
  let ?idx = "\<lparr>ci_root = root, ci_max_bytes = cap, ci_work = False, ci_state = ?inner\<rparr>"
  have "distinct (keys (lru_iter L c))"
    using assms(1) unfolding c(1) rev_map[symmetric] by (simp add: comp_def)
  then have i: "inner_ok L ?inner" using c(2) by (simp add: inner_ok_def)
  have r: "idx = (if tot > cap then notify_one ?idx else ?idx)" "calls = set_gauges L ?inner"
    using assms(2) load by (auto simp: CacheIndex_new_def Let_def)
  show "entries_of L idx = rev (map (\<lambda>m. (sc_name m, sc_size m)) ?ms)" "index_ok L idx"
    "ci_work idx \<longleftrightarrow> sizes (entries_of L idx) > cap" "ci_root idx = root" "ci_max_bytes idx = cap"
    "in_dirty (ci_state idx) = {}" "calls = gauges_of (entries_of L idx)"
    using c i set_gauges_ok[OF i] by (simp_all add: r notify_one_def index_ok_def)
qed

end

section \<open>Sequences of operations\<close>

text \<open>The critical sections of the index. An execution of the program, with any interleaving of its request
  handlers and its background task, performs a sequence of them. An operation is paired with the metrics
  calls it makes inside the section.\<close>

datatype index_op =
    Touch string
  | RecordBlob string u64
  | MarkChanged string
  | TakeDirty
  | SetSize string u64
  | TakeVictims
  | ReconcileApply "string list"

fun index_step :: "'l lru_ops \<Rightarrow> index_op \<Rightarrow> 'l CacheIndex \<Rightarrow> ('l CacheIndex \<times> metric_call list) option" where
  "index_step L (Touch k) idx = Some (touch L k idx, [])"
| "index_step L (RecordBlob k sz) idx = Some (record_blob L k sz idx)"
| "index_step L (MarkChanged k) idx = Some (mark_changed L k idx)"
| "index_step L TakeDirty idx = Some (snd (take_dirty (\<lambda>_. []) idx), [])"
| "index_step L (SetSize k sz) idx = Some (set_size L k sz idx)"
| "index_step L TakeVictims idx = map_option snd (take_victims L idx)"
| "index_step L (ReconcileApply ks) idx = Some (reconcile_apply L ks idx)"

fun index_steps :: "'l lru_ops \<Rightarrow> index_op list \<Rightarrow> 'l CacheIndex \<Rightarrow> metric_call list \<Rightarrow>
     ('l CacheIndex \<times> metric_call list) option" where
  "index_steps L [] idx calls = Some (idx, calls)"
| "index_steps L (op # ops) idx calls =
     (case index_step L op idx of None \<Rightarrow> None | Some (idx', cs) \<Rightarrow> index_steps L ops idx' (calls @ cs))"

text \<open>The specification: an index is the list of its entries, most recently used first, and the set of
  names to measure.\<close>

function keep_under :: "u64 \<Rightarrow> (string \<times> u64) list \<Rightarrow> (string \<times> u64) list" where
  "keep_under cap xs = (if xs \<noteq> [] \<and> sizes xs > cap then keep_under cap (butlast xs) else xs)"
  by pat_completeness auto
termination
  by (relation "Wellfounded.measure (\<lambda>(cap, xs). length xs)") auto

declare keep_under.simps [simp del]

fun spec_step :: "u64 \<Rightarrow> index_op \<Rightarrow> (string \<times> u64) list \<times> string set \<Rightarrow> (string \<times> u64) list \<times> string set" where
  "spec_step cap (Touch k) (xs, D) = (promote k xs, D)"
| "spec_step cap (RecordBlob k sz) (xs, D) = ((k, sz) # drop_key k xs, D)"
| "spec_step cap (MarkChanged k) (xs, D) =
     (if map_of xs k = None then (k, 0) # xs else promote k xs, insert k D)"
| "spec_step cap TakeDirty (xs, D) = (xs, {})"
| "spec_step cap (SetSize k sz) (xs, D) = (overwrite k sz xs, D)"
| "spec_step cap TakeVictims (xs, D) = (keep_under cap xs, D)"
| "spec_step cap (ReconcileApply ks) (xs, D) = (filter (\<lambda>(k, _). k \<notin> set ks \<or> k \<in> D) xs, D)"

definition index_abs :: "'l lru_ops \<Rightarrow> 'l CacheIndex \<Rightarrow> (string \<times> u64) list \<times> string set" where
  "index_abs L idx = (entries_of L idx, in_dirty (ci_state idx))"

lemma keep_under_tail:
  assumes "sizes xs \<le> cap" "\<forall>j<length out. sizes (xs @ take (Suc j) out) > cap"
  shows "keep_under cap (xs @ out) = xs"
  using assms(2)
proof (induction out rule: rev_induct)
  case Nil
  then show ?case using assms(1) by (auto simp: keep_under.simps[of cap xs])
next
  case (snoc y out)
  have "sizes (xs @ take (Suc j) out) > cap" if "j < length out" for j
    using snoc.prems[rule_format, of j] that by simp
  then have IH: "keep_under cap (xs @ out) = xs" using snoc.IH by blast
  have "sizes (xs @ out @ [y]) > cap" using snoc.prems[rule_format, of "length out"] by simp
  then show ?case using IH by (simp add: keep_under.simps[of cap "xs @ out @ [y]"] butlast_append)
qed

text \<open>What the operations leave alone.\<close>

lemma record_blob_frame:
  "record_blob L k sz idx = (idx', cs) \<Longrightarrow>
     ci_root idx' = ci_root idx \<and> ci_max_bytes idx' = ci_max_bytes idx \<and>
     in_dirty (ci_state idx') = in_dirty (ci_state idx)"
  by (auto simp: record_blob_def notify_one_def Let_def split: prod.splits)

lemma mark_changed_frame:
  "mark_changed L k idx = (idx', cs) \<Longrightarrow>
     ci_root idx' = ci_root idx \<and> ci_max_bytes idx' = ci_max_bytes idx \<and>
     in_dirty (ci_state idx') = insert k (in_dirty (ci_state idx))"
  by (auto simp: mark_changed_def notify_one_def Let_def split: prod.splits)

lemma set_size_frame:
  "set_size L k sz idx = (idx', cs) \<Longrightarrow>
     ci_root idx' = ci_root idx \<and> ci_max_bytes idx' = ci_max_bytes idx \<and>
     in_dirty (ci_state idx') = in_dirty (ci_state idx)"
  by (auto simp: set_size_def Let_def split: option.splits)

lemma reconcile_apply_frame:
  "reconcile_apply L ks idx = (idx', cs) \<Longrightarrow> ci_root idx' = ci_root idx \<and> ci_max_bytes idx' = ci_max_bytes idx"
  by (auto simp: reconcile_apply_def Let_def split: if_splits)

lemmas index_frames = record_blob_frame mark_changed_frame set_size_frame reconcile_apply_frame

lemma gauges_of_cong: "sizes xs = sizes ys \<Longrightarrow> length xs = length ys \<Longrightarrow> gauges_of xs = gauges_of ys"
  by (simp add: gauges_of_def)

lemma length_promote: "distinct (keys xs) \<Longrightarrow> length (promote k xs) = length xs"
  using distinct_promote[of xs k] set_keys_promote[of k xs] by (metis distinct_card length_map)

context lru_laws begin

lemma index_step_refines:
  assumes "index_ok L idx"
  shows "\<exists>idx' cs. index_step L op idx = Some (idx', cs) \<and> index_ok L idx' \<and>
    index_abs L idx' = spec_step (ci_max_bytes idx) op (index_abs L idx) \<and>
    ci_max_bytes idx' = ci_max_bytes idx \<and> ci_root idx' = ci_root idx \<and>
    (cs = gauges_of (entries_of L idx') \<or>
     cs = [] \<and> gauges_of (entries_of L idx') = gauges_of (entries_of L idx))"
proof (cases op)
  case (Touch k)
  have "distinct (keys (entries_of L idx))" using assms by (simp add: index_ok_def inner_ok_def)
  then have "gauges_of (promote k (entries_of L idx)) = gauges_of (entries_of L idx)"
    by (intro gauges_of_cong) (simp_all add: sizes_promote length_promote)
  then show ?thesis
    using touch_refines[OF assms, of k] Touch by (simp add: index_abs_def touch_def)
next
  case (RecordBlob k sz)
  obtain idx' cs where r: "record_blob L k sz idx = (idx', cs)" by force
  then show ?thesis
    using record_blob_refines[OF assms r] record_blob_frame[OF r] RecordBlob by (simp add: index_abs_def)
next
  case (MarkChanged k)
  obtain idx' cs where r: "mark_changed L k idx = (idx', cs)" by force
  then show ?thesis
    using mark_changed_refines[OF assms r] mark_changed_frame[OF r] MarkChanged
    by (auto simp: index_abs_def split: option.splits)
next
  case TakeDirty
  then show ?thesis
    using assms by (simp add: take_dirty_def index_abs_def index_ok_def inner_ok_def)
next
  case (SetSize k sz)
  obtain idx' cs where r: "set_size L k sz idx = (idx', cs)" by force
  then show ?thesis
    using set_size_refines[OF assms r] set_size_frame[OF r] SetSize overwrite_absent[of "entries_of L idx" k sz]
    by (auto simp: index_abs_def split: if_splits)
next
  case TakeVictims
  obtain out idx' where v: "take_victims L idx =
      Some (map (\<lambda>(k, _). (k, index_cache_dir idx k)) (rev out), idx', gauges_of (entries_of L idx'))"
    "index_ok L idx'" "entries_of L idx = entries_of L idx' @ out" "sizes (entries_of L idx') \<le> ci_max_bytes idx"
    "\<forall>j<length out. sizes (entries_of L idx' @ take (Suc j) out) > ci_max_bytes idx"
    "ci_max_bytes idx' = ci_max_bytes idx" "ci_root idx' = ci_root idx"
    "in_dirty (ci_state idx') = in_dirty (ci_state idx)"
    using take_victims_refines[OF assms] by blast
  then show ?thesis
    using keep_under_tail[OF v(4,5)] TakeVictims by (simp add: index_abs_def v(3))
next
  case (ReconcileApply ks)
  obtain idx' cs where r: "reconcile_apply L ks idx = (idx', cs)" by force
  then show ?thesis
    using reconcile_apply_refines[OF assms r] reconcile_apply_frame[OF r] ReconcileApply
    by (auto simp: index_abs_def reconcile_apply_def)
qed

lemma index_steps_refine:
  assumes "index_ok L idx" "calls = pre @ gauges_of (entries_of L idx)"
  shows "\<exists>idx' calls' pre'. index_steps L ops idx calls = Some (idx', calls') \<and> index_ok L idx' \<and>
    index_abs L idx' = fold (spec_step (ci_max_bytes idx)) ops (index_abs L idx) \<and>
    calls' = pre' @ gauges_of (entries_of L idx')"
  using assms
proof (induction ops arbitrary: idx calls pre)
  case (Cons op ops)
  obtain idx1 cs where s: "index_step L op idx = Some (idx1, cs)" "index_ok L idx1"
    "index_abs L idx1 = spec_step (ci_max_bytes idx) op (index_abs L idx)" "ci_max_bytes idx1 = ci_max_bytes idx"
    "cs = gauges_of (entries_of L idx1) \<or>
     cs = [] \<and> gauges_of (entries_of L idx1) = gauges_of (entries_of L idx)"
    using index_step_refines[OF Cons.prems(1), of op] by blast
  obtain pre1 where "calls @ cs = pre1 @ gauges_of (entries_of L idx1)"
    using s(5) Cons.prems(2) by auto
  then show ?case using Cons.IH[OF s(2)] s(1,3,4) by simp
qed auto

end

text \<open>A small index, for the witnesses.\<close>

definition sample_index :: "(string \<times> u64) list CacheIndex" where
  "sample_index = \<lparr>ci_root = ''/c'', ci_max_bytes = 10, ci_work = False,
     ci_state = \<lparr>in_cache = [(''a'', 5), (''b'', 4)], in_dirty = {}, in_total = 9\<rparr>\<rparr>"

lemma sample_index_ok: "index_ok list_lru sample_index"
  by (simp add: index_ok_def inner_ok_def list_lru_def sample_index_def)

lemma sample_index_abs:
  "index_abs list_lru sample_index = ([(''a'', 5), (''b'', 4)], {})" "ci_max_bytes sample_index = 10"
  by (simp_all add: index_abs_def list_lru_def sample_index_def)

section \<open>Properties\<close>



text \<open>C9: Eviction takes the least recently used entries and no more than needed: it always ends; what
  it returns are the last entries of the recency order, the least recently used first, each with its
  directory under the cache root; the sizes of the entries left are within the cap, and with any one of
  the entries it took (and those used after it) left in place they would not be.\<close>

theorem take_victims_lru_tail:
  assumes "lru_laws L" "index_ok L idx"
  shows "\<exists>out idx' calls. take_victims L idx =
      Some (map (\<lambda>(k, _). (k, path_join (ci_root idx) k)) (rev out), idx', calls) \<and> index_ok L idx' \<and>
    entries_of L idx = entries_of L idx' @ out \<and> in_total (ci_state idx') \<le> ci_max_bytes idx \<and>
    (\<forall>j. j < length out \<longrightarrow> sizes (entries_of L idx' @ take (Suc j) out) > ci_max_bytes idx)"
  using lru_laws.take_victims_refines[OF assms]
  by (fastforce simp: index_cache_dir_def index_ok_def inner_ok_def)

theorem take_victims_lru_tail_witness:
  "let idx = \<lparr>ci_root = ''/c'', ci_max_bytes = 10, ci_work = False,
       ci_state = \<lparr>in_cache = [(''a'', 5), (''b'', 4), (''d'', 3)], in_dirty = {}, in_total = 12\<rparr>\<rparr>
   in \<exists>idx' calls. take_victims list_lru idx = Some ([(''d'', ''/c/d'')], idx', calls) \<and>
        in_total (ci_state idx') = 9"
proof -
  let ?idx = "\<lparr>ci_root = ''/c'', ci_max_bytes = 10, ci_work = False,
       ci_state = \<lparr>in_cache = [(''a'', 5), (''b'', 4), (''d'', 3)], in_dirty = {}, in_total = 12\<rparr>\<rparr>"
  have ok: "index_ok list_lru ?idx" by (simp add: index_ok_def inner_ok_def list_lru_def)
  have run: "map_option (\<lambda>(v, i, _). (v, in_total (ci_state i))) (take_victims list_lru ?idx)
      = Some ([(''d'', ''/c/d'')], 9)" by code_simp
  obtain v i c where "take_victims list_lru ?idx = Some (v, i, c)"
    using take_victims_lru_tail[OF list_lru.lru_laws_axioms ok] by blast
  then show ?thesis using run by (simp add: Let_def)
qed

text \<open>What was just used is not evicted, unless it alone exceeds the cap: after an entry that fits is
  touched, the next eviction leaves it in the index.\<close>

theorem just_used_survives:
  assumes "lru_laws L" "index_ok L idx" "map_of (entries_of L idx) k = Some v" "v \<le> ci_max_bytes idx"
  shows "\<exists>victims idx' calls. take_victims L (touch L k idx) = Some (victims, idx', calls) \<and>
    k \<notin> fst ` set victims \<and> map_of (entries_of L idx') k = Some v"
proof -
  let ?t = "touch L k idx"
  have t: "entries_of L ?t = (k, v) # drop_key k (entries_of L idx)" "index_ok L ?t"
    using lru_laws.touch_refines[OF assms(1,2), of k] assms(3) by (simp_all add: promote_def)
  have cap: "ci_max_bytes ?t = ci_max_bytes idx" by (simp add: touch_def)
  obtain out idx' where v: "take_victims L ?t =
      Some (map (\<lambda>(k, _). (k, index_cache_dir ?t k)) (rev out), idx', gauges_of (entries_of L idx'))"
    "entries_of L ?t = entries_of L idx' @ out"
    "\<forall>j<length out. sizes (entries_of L idx' @ take (Suc j) out) > ci_max_bytes ?t"
    using lru_laws.take_victims_refines[OF assms(1) t(2)] by blast
  show ?thesis
  proof (cases "entries_of L idx'")
    case Nil
    then have out: "out = (k, v) # drop_key k (entries_of L idx)" using v(2) t(1) by simp
    then have "v > ci_max_bytes idx" using v(3)[rule_format, of 0] Nil cap by simp
    then show ?thesis using assms(4) by simp
  next
    case (Cons e rest)
    then have e: "e = (k, v)" "drop_key k (entries_of L idx) = rest @ out" using v(2) t(1) by simp_all
    then have "k \<notin> fst ` set out" using set_drop_key[of k "entries_of L idx"] by auto
    then show ?thesis using v(1) Cons e by (auto simp: image_iff)
  qed
qed

theorem just_used_survives_witness:
  "let idx = \<lparr>ci_root = ''/c'', ci_max_bytes = 6, ci_work = False,
       ci_state = \<lparr>in_cache = [(''a'', 5), (''b'', 4)], in_dirty = {}, in_total = 9\<rparr>\<rparr>
   in \<exists>victims idx' calls. take_victims list_lru (touch list_lru ''b'' idx) = Some (victims, idx', calls) \<and>
        ''b'' \<notin> fst ` set victims \<and> map_of (entries_of list_lru idx') ''b'' = Some 4"
proof -
  let ?idx = "\<lparr>ci_root = ''/c'', ci_max_bytes = 6, ci_work = False,
       ci_state = \<lparr>in_cache = [(''a'', 5), (''b'', 4)], in_dirty = {}, in_total = 9\<rparr>\<rparr>"
  have "index_ok list_lru ?idx" by (simp add: index_ok_def inner_ok_def list_lru_def)
  moreover have "map_of (entries_of list_lru ?idx) ''b'' = Some 4" by (simp add: list_lru_def)
  ultimately show ?thesis
    unfolding Let_def by (rule just_used_survives[OF list_lru.lru_laws_axioms]) simp
qed

text \<open>At startup the index holds every mirror and LFS object the scan found with its size, the most
  recently modified first, and the background task is woken exactly when their total exceeds the cap.\<close>

theorem startup_order:
  assumes "lru_laws L" "distinct (map sc_name (startup_entries f root))"
  shows "case CacheIndex_new L f root cap of (idx, calls) \<Rightarrow>
    entries_of L idx = map (\<lambda>m. (sc_name m, sc_size m)) (rev (startup_entries f root)) \<and>
    set (startup_entries f root) =
      set (find_mirrors f (components root)) \<union> set (find_lfs_blobs f (components root)) \<and>
    sorted_wrt (\<ge>) (map sc_mtime (rev (startup_entries f root))) \<and> index_ok L idx \<and>
    (ci_work idx \<longleftrightarrow> in_total (ci_state idx) > cap)"
proof -
  obtain idx calls where new: "CacheIndex_new L f root cap = (idx, calls)" by force
  have "sorted (map sc_mtime (startup_entries f root))"
    by (simp add: startup_entries_def)
  then have "sorted_wrt (\<ge>) (map sc_mtime (rev (startup_entries f root)))"
    by (simp add: rev_map[symmetric] sorted_wrt_rev)
  moreover note lru_laws.CacheIndex_new_refines[OF assms new]
  ultimately show ?thesis
    unfolding new by (simp add: startup_entries_def rev_map index_ok_def inner_ok_def)
qed

theorem startup_order_witness:
  "case CacheIndex_new list_lru sample_fs ''/c'' 5 of (idx, calls) \<Rightarrow>
     entries_of list_lru idx = [(''g/r'', 10)] \<and> ci_work idx"
proof -
  have e: "startup_entries sample_fs ''/c'' = [\<lparr>sc_name = ''g/r'', sc_size = 10, sc_mtime = 9\<rparr>]" by code_simp
  then show ?thesis
    using startup_order[OF list_lru.lru_laws_axioms, of sample_fs "''/c''" 5]
    by (auto simp: index_ok_def inner_ok_def split: prod.splits)
qed

end
