(* ===== verification/GitCache.thy ===== *)
theory GitCache
  imports Retry PktLine Evict
begin

text \<open>
  The mirror cache of \<^verbatim>\<open>src/src/git.rs\<close>: \<open>GitConfig\<close>, \<open>GitCache\<close> and its methods except the streaming of
  \<open>upload-pack\<close>. A world of the cache extends the world of the file system by the slots (the guarded
  instant of the last upstream pull of each repository) and the index. The definitions describe one
  operation running to its end; that operations on one repository do exclude each other is the subject
  of the theory \<open>SingleFlight\<close>.
\<close>

section \<open>Configuration and state\<close>

definition PROXY_WANTS_NS :: string where
  "PROXY_WANTS_NS = ''refs/proxy-wants''"

record GitConfig =
  git_binary :: string
  upstream_auth_header :: "string option"
  big_file_threshold :: string
  fetch_ttl :: nat
  max_wants :: nat
  max_upload_packs :: nat
  pack_threads :: "nat option"
  pack_window_memory :: "string option"

record 'l cache_world = io_world +
  w_slots :: "string \<rightharpoonup> nat option"
  w_index :: "'l CacheIndex option"

text \<open>\<open>slot\<close>: the entry of the map, inserted with no instant when absent.\<close>

definition slot :: "string \<Rightarrow> ('l, 'z) cache_world_scheme \<Rightarrow> ('l, 'z) cache_world_scheme" where
  "slot k w = (if w_slots w k = None then w\<lparr>w_slots := (w_slots w)(k \<mapsto> None)\<rparr> else w)"

definition slot_last :: "string \<Rightarrow> ('l, 'z) cache_world_scheme \<Rightarrow> nat option" where
  "slot_last k w = (case w_slots w k of None \<Rightarrow> None | Some t \<Rightarrow> t)"

definition set_last :: "string \<Rightarrow> nat \<Rightarrow> ('l, 'z) cache_world_scheme \<Rightarrow> ('l, 'z) cache_world_scheme" where
  "set_last k t w = w\<lparr>w_slots := (w_slots w)(k \<mapsto> Some t)\<rparr>"

text \<open>The methods of the index, when there is one.\<close>

definition touch_index :: "'l lru_ops \<Rightarrow> string \<Rightarrow> ('l, 'z) cache_world_scheme \<Rightarrow> ('l, 'z) cache_world_scheme" where
  "touch_index L k w = w\<lparr>w_index := map_option (touch L k) (w_index w)\<rparr>"

definition cache_mark_changed ::
  "'l lru_ops \<Rightarrow> RepoRef \<Rightarrow> ('l, 'z) cache_world_scheme \<Rightarrow> ('l, 'z) cache_world_scheme" where
  "cache_mark_changed L repo w =
     (case w_index w of
        None \<Rightarrow> w
      | Some idx \<Rightarrow> (case mark_changed L (name repo) idx of
                      (idx', calls) \<Rightarrow> metric calls (w\<lparr>w_index := Some idx'\<rparr>)))"

section \<open>Commands\<close>

definition command_new :: "string \<Rightarrow> git_cmd" where
  "command_new prog = \<lparr>program = prog, args = [], env = [], cwd = None, stdin = []\<rparr>"

definition add_args :: "string list \<Rightarrow> git_cmd \<Rightarrow> git_cmd" where
  "add_args xs c = c\<lparr>args := args c @ xs\<rparr>"

definition current_dir :: "string \<Rightarrow> git_cmd \<Rightarrow> git_cmd" where
  "current_dir d c = c\<lparr>cwd := Some d\<rparr>"

definition fetch_cmd :: "GitConfig \<Rightarrow> git_cmd" where
  "fetch_cmd cfg = (command_new (git_binary cfg))\<lparr>env :=
     [(''GIT_TERMINAL_PROMPT'', ''0''), (''LC_ALL'', ''C'')] @
     git_config_env (big_file_threshold cfg) (upstream_auth_header cfg)\<rparr>"

definition local_cmd :: "GitConfig \<Rightarrow> string option \<Rightarrow> git_cmd" where
  "local_cmd cfg git_protocol =
     (command_new (git_binary cfg))
       \<lparr>args := [''-c'', ''uploadpack.allowFilter=true'', ''-c'', ''uploadpack.hideRefs='' @ PROXY_WANTS_NS] @
          (case pack_threads cfg of None \<Rightarrow> [] | Some n \<Rightarrow> [''-c'', ''pack.threads='' @ show_dec n]) @
          (case pack_window_memory cfg of None \<Rightarrow> [] | Some m \<Rightarrow> [''-c'', ''pack.windowMemory='' @ m]),
        env := (case git_protocol of None \<Rightarrow> [] | Some p \<Rightarrow> [(''GIT_PROTOCOL'', p)])\<rparr>"

section \<open>Operations\<close>

text \<open>\<open>instant\<close> reads the monotonic clock; \<open>since\<close> is \<open>Instant::elapsed\<close>, which saturates at zero.\<close>

definition instant :: "('e) io_env_scheme \<Rightarrow> ('z) io_world_scheme \<Rightarrow> nat" where
  "instant E w = clock E (w_tick w)"

definition since :: "('e) io_env_scheme \<Rightarrow> nat \<Rightarrow> ('z) io_world_scheme \<Rightarrow> nat" where
  "since E t w = instant E w - t"

text \<open>\<open>Command::output\<close>: everything written to standard error is read, then the child is waited for.\<close>

fun read_all :: "(io_error + string) list \<Rightarrow> string \<Rightarrow> io_error + string" where
  "read_all [] acc = Inr acc"
| "read_all (Inl e # rs) acc = Inl e"
| "read_all (Inr chunk # rs) acc = (if chunk = [] then Inr acc else read_all rs (acc @ chunk))"

definition output_of :: "git_out \<Rightarrow> io_error + exit_status \<times> string" where
  "output_of out =
     (case read_all (stderr_reads out) [] of
        Inl e \<Rightarrow> Inl e
      | Inr err \<Rightarrow> (case out_status out of Inl e \<Rightarrow> Inl e | Inr status \<Rightarrow> Inr (status, err)))"

definition head_exists :: "string \<Rightarrow> ('z) io_world_scheme \<Rightarrow> bool" where
  "head_exists dir w \<longleftrightarrow> fs_exists (w_fs w) (components (path_join dir ''HEAD''))"

definition evict ::
  "('e) io_env_scheme \<Rightarrow> string \<Rightarrow> string \<Rightarrow> ('l, 'z) cache_world_scheme \<Rightarrow>
     (error + unit) \<times> ('l, 'z) cache_world_scheme" where
  "evict E k dir w =
     (let w1 = slot k w in
      if \<not> head_exists dir w1 then (Inr (), w1)
      else
        let trash = trash_dir dir; w2 = io_ignore (io_remove_dir_all E trash) w1 in
        case io_context (''rename mirror for eviction: '' @ k) (io_rename E dir trash) w2 of
          (Inl e, w3) \<Rightarrow> (Inl e, w3)
        | (Inr _, w3) \<Rightarrow> (Inr (), io_ignore (io_remove_dir_all E trash) w3))"

text \<open>\<open>Path::parent\<close>, as a path.\<close>

definition parent_path :: "string \<Rightarrow> fpath option" where
  "parent_path p =
     (let cs = components p in if cs = [] \<or> cs = [RootDir] then None else Some (butlast cs))"

definition create_parent ::
  "('e) io_env_scheme \<Rightarrow> RepoRef \<Rightarrow> ('z) io_world_scheme \<Rightarrow> (error + unit) \<times> ('z) io_world_scheme" where
  "create_parent E repo =
     (case parent_path (cache_dir repo) of
        None \<Rightarrow> io_ok ()
      | Some p \<Rightarrow> io_context (''create cache parent for '' @ name repo) (syscall E (fs_create_dir_all p)))"

definition clone_cmd :: "GitConfig \<Rightarrow> RepoRef \<Rightarrow> git_cmd" where
  "clone_cmd cfg repo =
     add_args [''clone'', ''--mirror'', ''--quiet'', upstream_url repo, staging_dir (cache_dir repo)] (fetch_cmd cfg)"

definition clone_mirror ::
  "('e) io_env_scheme \<Rightarrow> 'l lru_ops \<Rightarrow> GitConfig \<Rightarrow> RepoRef \<Rightarrow> ('l, 'z) cache_world_scheme \<Rightarrow>
     (error + unit) \<times> ('l, 'z) cache_world_scheme" where
  "clone_mirror E L cfg repo w =
     (case create_parent E repo w of
        (Inl e, w1) \<Rightarrow> (Inl e, w1)
      | (Inr _, w1) \<Rightarrow>
          let tmp = staging_dir (cache_dir repo); started = instant E w1 in
          case run_upstream E (clone_cmd cfg repo) ''clone'' (name repo) (Some tmp) w1 of
            (Inl e, w2) \<Rightarrow> (Inl e, metric (record_upstream Clone Error ''-'') w2)
          | (Inr _, w2) \<Rightarrow>
              let elapsed = since E started w2 in
              case io_context ''rename mirror into place'' (io_rename E tmp (cache_dir repo)) w2 of
                (Inl e, w3) \<Rightarrow> (Inl e, w3)
              | (Inr _, w3) \<Rightarrow>
                  (Inr (), cache_mark_changed L repo
                     (metric (record_upstream Clone Ok (name repo) @
                              observe_upstream Clone (name repo) elapsed) w3)))"

definition refresh_cmd :: "GitConfig \<Rightarrow> RepoRef \<Rightarrow> git_cmd" where
  "refresh_cmd cfg repo =
     add_args [''fetch'', ''--prune'', ''--quiet'', ''origin'', ''+refs/*:refs/*'', ''^'' @ PROXY_WANTS_NS @ ''/*'']
       (current_dir (cache_dir repo) (fetch_cmd cfg))"

definition fetch ::
  "('e) io_env_scheme \<Rightarrow> 'l lru_ops \<Rightarrow> GitConfig \<Rightarrow> RepoRef \<Rightarrow> ('l, 'z) cache_world_scheme \<Rightarrow>
     (error + unit) \<times> ('l, 'z) cache_world_scheme" where
  "fetch E L cfg repo w =
     (let started = instant E w in
      case run_upstream E (refresh_cmd cfg repo) ''fetch'' (name repo) None w of
        (Inl e, w1) \<Rightarrow> (Inl e, metric (record_upstream Fetch Error ''-'') w1)
      | (Inr _, w1) \<Rightarrow>
          (Inr (), cache_mark_changed L repo
             (metric (record_upstream Fetch Ok (name repo) @
                      observe_upstream Fetch (name repo) (since E started w1)) w1)))"

subsection \<open>Want-by-SHA\<close>

definition cat_file_cmd :: "GitConfig \<Rightarrow> RepoRef \<Rightarrow> string list \<Rightarrow> git_cmd" where
  "cat_file_cmd cfg repo oids =
     (add_args [''cat-file'', ''--batch-check''] (current_dir (cache_dir repo) (command_new (git_binary cfg))))
       \<lparr>stdin := concat (map (\<lambda>oid. oid @ ''\<newline>'') oids)\<rparr>"

definition missing_lines :: "string \<Rightarrow> string list" where
  "missing_lines out = List.map_filter (\<lambda>l. strip_suffix l '' missing'') (str_lines (from_utf8_lossy out))"

definition missing_oids ::
  "('e) io_env_scheme \<Rightarrow> GitConfig \<Rightarrow> RepoRef \<Rightarrow> string set \<Rightarrow> ('z) io_world_scheme \<Rightarrow>
     (error + string list) \<times> ('z) io_world_scheme" where
  "missing_oids E cfg repo oids w =
     (case io_context ''spawn git cat-file --batch-check''
             (run_git E (cat_file_cmd cfg repo (hash_iter E oids))) w of
        (Inl e, w1) \<Rightarrow> (Inl e, w1)
      | (Inr out, w1) \<Rightarrow>
     (case stdin_write out of
        Inl e \<Rightarrow> (Inl (IoFail ''write cat-file query'' e), w1)
      | Inr _ \<Rightarrow>
     (case out_status out of
        Inl e \<Rightarrow> (Inl (IoFail ''git cat-file --batch-check'' e), w1)
      | Inr status \<Rightarrow>
          if \<not> exit_success status
          then (Inl (Bail (''git cat-file --batch-check failed for '' @ name repo)), w1)
          else (Inr (missing_lines (stdout out)), w1))))"

definition for_each_ref_cmd :: "GitConfig \<Rightarrow> RepoRef \<Rightarrow> git_cmd" where
  "for_each_ref_cmd cfg repo =
     add_args [''for-each-ref'', ''--sort=-creatordate'', ''--format=%(refname)'', PROXY_WANTS_NS @ ''/'']
       (current_dir (cache_dir repo) (command_new (git_binary cfg)))"

definition update_ref_cmd :: "GitConfig \<Rightarrow> RepoRef \<Rightarrow> string list \<Rightarrow> git_cmd" where
  "update_ref_cmd cfg repo stale =
     (add_args [''update-ref'', ''--stdin''] (current_dir (cache_dir repo) (command_new (git_binary cfg))))
       \<lparr>stdin := concat (map (\<lambda>r. ''delete '' @ r @ ''\<newline>'') stale)\<rparr>"

definition prune_wants ::
  "('e) io_env_scheme \<Rightarrow> GitConfig \<Rightarrow> RepoRef \<Rightarrow> ('z) io_world_scheme \<Rightarrow>
     (error + unit) \<times> ('z) io_world_scheme" where
  "prune_wants E cfg repo w =
     (if max_wants cfg = 0 then (Inr (), w)
      else
     (case io_context ''spawn git for-each-ref (proxy-wants)'' (run_git E (for_each_ref_cmd cfg repo)) w of
        (Inl e, w1) \<Rightarrow> (Inl e, w1)
      | (Inr out, w1) \<Rightarrow>
     (case output_of out of
        Inl e \<Rightarrow> (Inl (IoFail ''spawn git for-each-ref (proxy-wants)'' e), w1)
      | Inr (status, _) \<Rightarrow>
          if \<not> exit_success status then (Inl (Bail (''git for-each-ref failed for '' @ name repo)), w1)
          else
            let refs = str_lines (from_utf8_lossy (stdout out)) in
            if length refs \<le> max_wants cfg then (Inr (), w1)
            else
     (case io_context ''spawn git update-ref --stdin''
             (run_git E (update_ref_cmd cfg repo (drop (max_wants cfg) refs))) w1 of
        (Inl e, w2) \<Rightarrow> (Inl e, w2)
      | (Inr out2, w2) \<Rightarrow>
     (case stdin_write out2 of
        Inl e \<Rightarrow> (Inl (IoFail ''write update-ref deletions'' e), w2)
      | Inr _ \<Rightarrow>
     (case out_status out2 of
        Inl e \<Rightarrow> (Inl (IoFail ''git update-ref --stdin'' e), w2)
      | Inr status2 \<Rightarrow>
          if \<not> exit_success status2 then (Inl (Bail (''git update-ref --stdin failed for '' @ name repo)), w2)
          else (Inr (), w2)))))))"

definition capped_wants :: "GitConfig \<Rightarrow> string list \<Rightarrow> string list" where
  "capped_wants cfg missing =
     (if max_wants cfg > 0 \<and> length missing > max_wants cfg then take (max_wants cfg) missing else missing)"

definition want_fetch_cmd :: "GitConfig \<Rightarrow> RepoRef \<Rightarrow> string list \<Rightarrow> git_cmd" where
  "want_fetch_cmd cfg repo missing =
     add_args ([''fetch'', ''--no-tags'', ''--quiet'', ''origin''] @
               map (\<lambda>oid. ''+'' @ oid @ '':'' @ PROXY_WANTS_NS @ ''/'' @ oid) missing)
       (current_dir (cache_dir repo) (fetch_cmd cfg))"

definition ensure_wanted_oids ::
  "('e) io_env_scheme \<Rightarrow> 'l lru_ops \<Rightarrow> GitConfig \<Rightarrow> RepoRef \<Rightarrow> string \<Rightarrow> ('l, 'z) cache_world_scheme \<Rightarrow>
     (error + unit) \<times> ('l, 'z) cache_world_scheme" where
  "ensure_wanted_oids E L cfg repo body w =
     (let wants = parse_wants body in
      if wants = {} then (Inr (), w)
      else
     (case missing_oids E cfg repo wants w of
        (Inl e, w1) \<Rightarrow> (Inl e, w1)
      | (Inr all_missing, w1) \<Rightarrow>
          if all_missing = [] then (Inr (), w1)
          else
            let missing = capped_wants cfg all_missing; started = instant E w1 in
     (case io_context ''spawn git fetch (want-by-sha)'' (run_git E (want_fetch_cmd cfg repo missing)) w1 of
        (Inl e, w2) \<Rightarrow> (Inl e, w2)
      | (Inr out, w2) \<Rightarrow>
     (case out_status out of
        Inl e \<Rightarrow> (Inl (IoFail ''spawn git fetch (want-by-sha)'' e), w2)
      | Inr status \<Rightarrow>
          if \<not> exit_success status then (Inr (), metric (record_upstream WantFetch Error ''-'') w2)
          else
            (Inr (), snd (prune_wants E cfg repo
               (cache_mark_changed L repo
                 (metric (record_upstream WantFetch Ok (name repo) @
                          observe_upstream WantFetch (name repo) (since E started w2)) w2))))))))"

subsection \<open>Keeping a mirror fresh, and advertising it\<close>

definition fetch_due :: "('e) io_env_scheme \<Rightarrow> GitConfig \<Rightarrow> nat option \<Rightarrow> ('z) io_world_scheme \<Rightarrow> bool" where
  "fetch_due E cfg pulled w =
     (case pulled of None \<Rightarrow> True | Some t \<Rightarrow> fetch_ttl cfg = 0 \<or> since E t w \<ge> fetch_ttl cfg)"

definition refresh_mirror ::
  "('e) io_env_scheme \<Rightarrow> 'l lru_ops \<Rightarrow> GitConfig \<Rightarrow> RepoRef \<Rightarrow> bool \<Rightarrow> ('l, 'z) cache_world_scheme \<Rightarrow>
     (error + CacheOutcome) \<times> ('l, 'z) cache_world_scheme" where
  "refresh_mirror E L cfg repo want_fetch w =
     (let started = instant E w in
      if \<not> head_exists (cache_dir repo) w then
        (case clone_mirror E L cfg repo w of
           (Inl e, w1) \<Rightarrow> (Inl e, w1)
         | (Inr _, w1) \<Rightarrow> (Inr Cloned, set_last (name repo) started w1))
      else if want_fetch \<and> fetch_due E cfg (slot_last (name repo) w) w then
        (case fetch E L cfg repo w of
           (Inl e, w1) \<Rightarrow> (Inl e, w1)
         | (Inr _, w1) \<Rightarrow> (Inr Fetched, set_last (name repo) started w1))
      else (Inr Cached, w))"

definition ensure_fresh ::
  "('e) io_env_scheme \<Rightarrow> 'l lru_ops \<Rightarrow> GitConfig \<Rightarrow> RepoRef \<Rightarrow> bool \<Rightarrow> string \<Rightarrow>
     ('l, 'z) cache_world_scheme \<Rightarrow> (error + CacheOutcome) \<times> ('l, 'z) cache_world_scheme" where
  "ensure_fresh E L cfg repo want_fetch body w =
     (case refresh_mirror E L cfg repo want_fetch (touch_index L (name repo) (slot (name repo) w)) of
        (Inl e, w1) \<Rightarrow> (Inl e, w1)
      | (Inr outcome, w1) \<Rightarrow> (Inr outcome, snd (ensure_wanted_oids E L cfg repo body w1)))"

definition advertise_cmd :: "GitConfig \<Rightarrow> RepoRef \<Rightarrow> string option \<Rightarrow> git_cmd" where
  "advertise_cmd cfg repo git_protocol =
     add_args [''upload-pack'', ''--stateless-rpc'', ''--advertise-refs'', cache_dir repo] (local_cmd cfg git_protocol)"

definition advertise_refs ::
  "('e) io_env_scheme \<Rightarrow> GitConfig \<Rightarrow> RepoRef \<Rightarrow> string option \<Rightarrow> ('z) io_world_scheme \<Rightarrow>
     (error + string) \<times> ('z) io_world_scheme" where
  "advertise_refs E cfg repo git_protocol w =
     (let started = instant E w in
      case io_context ''spawn git upload-pack --advertise-refs''
             (run_git E (advertise_cmd cfg repo git_protocol)) w of
        (Inl e, w1) \<Rightarrow> (Inl e, w1)
      | (Inr out, w1) \<Rightarrow>
     (case output_of out of
        Inl e \<Rightarrow> (Inl (IoFail ''spawn git upload-pack --advertise-refs'' e), w1)
      | Inr (status, err) \<Rightarrow>
          if \<not> exit_success status
          then (Inl (Bail (''advertise-refs failed for '' @ name repo @ '': '' @
                  from_utf8_lossy err)), w1)
          else
            (Inr (pkt_line ''# service=git-upload-pack\<newline>'' @ ''0000'' @ stdout out),
             metric (observe_serve ServeInfoRefs (name repo) (since E started w1)) w1)))"

end
