(* ===== verification/Pull.thy ===== *)
theory Pull
  imports Effects GitCache
begin

text \<open>
  What the operations that keep a mirror fresh (\<^verbatim>\<open>src/src/git.rs\<close>: \<open>ensure_fresh\<close>, \<open>clone_mirror\<close>, \<open>fetch\<close> and the want-by-SHA
  methods) have in common. The case rules name the worlds they pass through. The locale \<open>pull_frame\<close> states what
  a relation between worlds needs to hold of the single steps (a command, a system call, a metric, marking the mirror as
  changed) to hold of a clone, a fetch and the want-by-SHA methods; \<open>fresh_frame\<close> adds the steps of \<open>ensure_fresh\<close>. The
  relation of worlds by their events and by their slots are instances.
\<close>

section \<open>Commands and metrics\<close>

text \<open>The commands that keep a mirror fresh: three that talk to upstream and three that do not.\<close>

definition upstream_cmd :: "GitConfig \<Rightarrow> RepoRef \<Rightarrow> git_cmd \<Rightarrow> bool" where
  "upstream_cmd cfg repo c \<longleftrightarrow> c = clone_cmd cfg repo \<or> c = refresh_cmd cfg repo \<or>
     (\<exists>ms. c = want_fetch_cmd cfg repo ms \<and> (max_wants cfg > 0 \<longrightarrow> length ms \<le> max_wants cfg))"

definition mirror_cmd :: "GitConfig \<Rightarrow> RepoRef \<Rightarrow> git_cmd \<Rightarrow> bool" where
  "mirror_cmd cfg repo c \<longleftrightarrow> (\<exists>oids. c = cat_file_cmd cfg repo oids) \<or> c = for_each_ref_cmd cfg repo \<or>
     (\<exists>stale. c = update_ref_cmd cfg repo stale)"

text \<open>A metrics call that fits its family and names the repository only for a success.\<close>

definition good_call :: "string \<Rightarrow> metric_call \<Rightarrow> bool" where
  "good_call k c \<longleftrightarrow> call_ok c \<and> label_disciplined c \<and>
     (case c of CounterVecInc n [_, _, repo] \<Rightarrow> repo = ''-'' \<or> repo = k
              | HistogramObserve n [_, repo] _ \<Rightarrow> repo = k | _ \<Rightarrow> True)"

definition mirror_event :: "GitConfig \<Rightarrow> RepoRef \<Rightarrow> io_event \<Rightarrow> bool" where
  "mirror_event cfg repo e \<longleftrightarrow>
     (case e of Spawned c _ \<Rightarrow> upstream_cmd cfg repo c \<or> mirror_cmd cfg repo c
              | Slept _ \<Rightarrow> True
              | MetricCall c \<Rightarrow> good_call (name repo) c)"

lemma mirror_event_simps [simp]:
  "mirror_event cfg repo (Spawned c out) \<longleftrightarrow> upstream_cmd cfg repo c \<or> mirror_cmd cfg repo c"
  "mirror_event cfg repo (Slept d)"
  "mirror_event cfg repo (MetricCall m) \<longleftrightarrow> good_call (name repo) m"
  by (simp_all add: mirror_event_def)

lemma cmd_cases [simp]:
  "upstream_cmd cfg repo (clone_cmd cfg repo)" "upstream_cmd cfg repo (refresh_cmd cfg repo)"
  "mirror_cmd cfg repo (cat_file_cmd cfg repo oids)" "mirror_cmd cfg repo (for_each_ref_cmd cfg repo)"
  "mirror_cmd cfg repo (update_ref_cmd cfg repo stale)"
  "upstream_cmd cfg repo (want_fetch_cmd cfg repo (capped_wants cfg ms))"
proof -
  have "max_wants cfg > 0 \<longrightarrow> length (capped_wants cfg ms) \<le> max_wants cfg" by (simp add: capped_wants_def)
  then show "upstream_cmd cfg repo (want_fetch_cmd cfg repo (capped_wants cfg ms))"
    unfolding upstream_cmd_def by (intro disjI2 exI[of _ "capped_wants cfg ms"] conjI) simp_all
  show "mirror_cmd cfg repo (cat_file_cmd cfg repo oids)"
    unfolding mirror_cmd_def by (intro disjI1 exI[of _ oids]) simp
  show "mirror_cmd cfg repo (update_ref_cmd cfg repo stale)"
    unfolding mirror_cmd_def by (intro disjI2 exI[of _ stale]) simp
qed (simp_all add: upstream_cmd_def mirror_cmd_def)

lemma good_calls [simp]:
  "list_all (good_call k) (record_upstream op Error ''-'')"
  "list_all (good_call k) (record_upstream op Ok k)"
  "list_all (good_call k) (observe_upstream op k t)"
  "list_all (good_call k) (set_cache_size b m)"
  using calls_ok(2)[of op Error "''-''"] calls_ok(2)[of op Ok k] calls_ok(8)[of op k t] calls_ok(3)[of b m]
  by (simp_all add: good_call_def recording_defs label_disciplined_def)

section \<open>The worlds the operations pass through\<close>

text \<open>The worlds the want-by-SHA operations pass through.\<close>

lemma missing_oids_world:
  assumes "missing_oids E cfg repo S w = (r, w')"
  shows "\<exists>r1. io_context ''spawn git cat-file --batch-check'' (run_git E (cat_file_cmd cfg repo (hash_iter E S))) w = (r1, w')"
  using assms unfolding missing_oids_def by (auto split: prod.splits sum.splits if_splits)

lemma prune_wants_world:
  assumes "prune_wants E cfg repo w = (r, w')"
  obtains (none) "w' = w"
  | (listed) r1 where "io_context ''spawn git for-each-ref (proxy-wants)'' (run_git E (for_each_ref_cmd cfg repo)) w = (r1, w')"
  | (pruned) r1 w1 stale r2 where
      "io_context ''spawn git for-each-ref (proxy-wants)'' (run_git E (for_each_ref_cmd cfg repo)) w = (r1, w1)"
      "io_context ''spawn git update-ref --stdin'' (run_git E (update_ref_cmd cfg repo stale)) w1 = (r2, w')"
  using assms unfolding prune_wants_def Let_def
  by (auto split: prod.splits sum.splits if_splits)

lemma ensure_wanted_world:
  assumes "ensure_wanted_oids E L cfg repo body w = (r, w')"
  obtains (none) "w' = w"
  | (checked) r1 where "missing_oids E cfg repo (parse_wants body) w = (r1, w')"
  | (tried) r1 w1 ms r2 w2 where "missing_oids E cfg repo (parse_wants body) w = (r1, w1)"
      "io_context ''spawn git fetch (want-by-sha)'' (run_git E (want_fetch_cmd cfg repo (capped_wants cfg ms))) w1 = (r2, w2)"
      "w' = w2 \<or> w' = metric (record_upstream WantFetch Error ''-'') w2"
  | (fetched) r1 w1 ms r2 w2 t where "missing_oids E cfg repo (parse_wants body) w = (r1, w1)"
      "io_context ''spawn git fetch (want-by-sha)'' (run_git E (want_fetch_cmd cfg repo (capped_wants cfg ms))) w1 = (r2, w2)"
      "w' = snd (prune_wants E cfg repo (cache_mark_changed L repo
             (metric (record_upstream WantFetch Ok (name repo) @ observe_upstream WantFetch (name repo) t) w2)))"
proof (cases "parse_wants body = {}")
  case True
  then show ?thesis using assms none by (simp add: ensure_wanted_oids_def)
next
  case wants: False
  obtain r1 w1 where c1: "missing_oids E cfg repo (parse_wants body) w = (r1, w1)" by force
  show ?thesis
  proof (cases "isl r1 \<or> projr r1 = []")
    case True
    then have "w' = w1" using assms c1 wants by (auto simp: ensure_wanted_oids_def Let_def split: sum.splits)
    then show ?thesis using c1 checked by blast
  next
    case False
    then obtain ms where ms: "r1 = Inr ms" "ms \<noteq> []" by (cases r1) auto
    obtain r2 w2 where c2: "io_context ''spawn git fetch (want-by-sha)''
        (run_git E (want_fetch_cmd cfg repo (capped_wants cfg ms))) w1 = (r2, w2)" by force
    have "w' = w2 \<or> w' = metric (record_upstream WantFetch Error ''-'') w2 \<or>
        (\<exists>t. w' = snd (prune_wants E cfg repo (cache_mark_changed L repo
             (metric (record_upstream WantFetch Ok (name repo) @ observe_upstream WantFetch (name repo) t) w2))))"
      using assms c1 c2 ms wants by (auto simp: ensure_wanted_oids_def Let_def split: sum.splits if_splits)
    then show ?thesis using c1 c2 tried fetched by blast
  qed
qed

text \<open>The ways a fetch and a clone can end.\<close>

lemma fetch_cases:
  assumes "fetch E L cfg repo w = (r, w')"
  obtains
    (failed) e w1 where "run_upstream E (refresh_cmd cfg repo) ''fetch'' (name repo) None w = (Inl e, w1)"
      "r = Inl e" "w' = metric (record_upstream Fetch Error ''-'') w1"
  | (fetched) w1 t where "run_upstream E (refresh_cmd cfg repo) ''fetch'' (name repo) None w = (Inr (), w1)"
      "r = Inr ()" "w' = cache_mark_changed L repo
         (metric (record_upstream Fetch Ok (name repo) @ observe_upstream Fetch (name repo) t) w1)"
proof -
  obtain r1 w1 where run: "run_upstream E (refresh_cmd cfg repo) ''fetch'' (name repo) None w = (r1, w1)" by force
  note step = assms[unfolded fetch_def run Let_def prod.case]
  show ?thesis
  proof (cases r1)
    case (Inl e)
    have "r = Inl e" "w' = metric (record_upstream Fetch Error ''-'') w1"
      using step[unfolded Inl] by simp_all
    then show ?thesis using failed run[unfolded Inl] by blast
  next
    case (Inr u)
    have "r = Inr ()" "w' = cache_mark_changed L repo (metric (record_upstream Fetch Ok (name repo) @
        observe_upstream Fetch (name repo) (since E (instant E w) w1)) w1)"
      using step[unfolded Inr] by simp_all
    then show ?thesis using fetched run[unfolded Inr] by simp
  qed
qed

lemma clone_cases:
  assumes "clone_mirror E L cfg repo w = (r, w')"
  obtains
    (parent) e where "create_parent E repo w = (Inl e, w')" "r = Inl e"
  | (failed) w1 e w2 where "create_parent E repo w = (Inr (), w1)"
      "run_upstream E (clone_cmd cfg repo) ''clone'' (name repo) (Some (staging_dir (cache_dir repo))) w1 = (Inl e, w2)"
      "r = Inl e" "w' = metric (record_upstream Clone Error ''-'') w2"
  | (rename) w1 w2 e where "create_parent E repo w = (Inr (), w1)"
      "run_upstream E (clone_cmd cfg repo) ''clone'' (name repo) (Some (staging_dir (cache_dir repo))) w1 = (Inr (), w2)"
      "io_context ''rename mirror into place'' (io_rename E (staging_dir (cache_dir repo)) (cache_dir repo)) w2 = (Inl e, w')"
      "r = Inl e"
  | (cloned) w1 w2 w3 t where "create_parent E repo w = (Inr (), w1)"
      "run_upstream E (clone_cmd cfg repo) ''clone'' (name repo) (Some (staging_dir (cache_dir repo))) w1 = (Inr (), w2)"
      "io_context ''rename mirror into place'' (io_rename E (staging_dir (cache_dir repo)) (cache_dir repo)) w2 = (Inr (), w3)"
      "r = Inr ()" "w' = cache_mark_changed L repo
         (metric (record_upstream Clone Ok (name repo) @ observe_upstream Clone (name repo) t) w3)"
proof -
  let ?tmp = "staging_dir (cache_dir repo)"
  obtain r1 w1 where p: "create_parent E repo w = (r1, w1)" by force
  obtain r2 w2 where u: "run_upstream E (clone_cmd cfg repo) ''clone'' (name repo) (Some ?tmp) w1 = (r2, w2)" by force
  obtain r3 w3 where m: "io_context ''rename mirror into place'' (io_rename E ?tmp (cache_dir repo)) w2 = (r3, w3)" by force
  show ?thesis
  proof (cases r1)
    case (Inl e)
    have "r = Inl e" "w' = w1" using assms by (simp_all add: clone_mirror_def p Inl)
    then show ?thesis using parent p Inl by simp
  next
    case r1: (Inr u1)
    note pre = p[unfolded r1] assms[unfolded clone_mirror_def p r1 Let_def prod.case sum.case u]
    show ?thesis
    proof (cases r2)
      case (Inl e)
      have "r = Inl e" "w' = metric (record_upstream Clone Error ''-'') w2"
        using pre(2)[unfolded Inl] by simp_all
      then show ?thesis using failed pre(1) u[unfolded Inl] by simp
    next
      case r2: (Inr u2)
      note pre2 = u[unfolded r2] pre(2)[unfolded r2 sum.case m prod.case]
      show ?thesis
      proof (cases r3)
        case (Inl e)
        have "r = Inl e" "w' = w3" using pre2(2)[unfolded Inl] by simp_all
        then show ?thesis using rename pre(1) pre2(1) m[unfolded Inl] by simp
      next
        case (Inr u3)
        have "r = Inr ()" "w' = cache_mark_changed L repo (metric (record_upstream Clone Ok (name repo) @
            observe_upstream Clone (name repo) (since E (instant E w1) w2)) w3)"
          using pre2(2)[unfolded Inr] by simp_all
        then show ?thesis using cloned pre(1) pre2(1) m[unfolded Inr] by simp
      qed
    qed
  qed
qed

lemma refresh_cases:
  assumes "refresh_mirror E L cfg repo want_fetch w = (r, w')"
  obtains
    (clone_failed) e where "\<not> head_exists (cache_dir repo) w" "clone_mirror E L cfg repo w = (Inl e, w')" "r = Inl e"
  | (cloned) w1 where "\<not> head_exists (cache_dir repo) w" "clone_mirror E L cfg repo w = (Inr (), w1)"
      "r = Inr Cloned" "w' = set_last (name repo) (instant E w) w1"
  | (fetch_failed) e where "head_exists (cache_dir repo) w" "want_fetch" "fetch_due E cfg (slot_last (name repo) w) w"
      "fetch E L cfg repo w = (Inl e, w')" "r = Inl e"
  | (fetched) w1 where "head_exists (cache_dir repo) w" "want_fetch" "fetch_due E cfg (slot_last (name repo) w) w"
      "fetch E L cfg repo w = (Inr (), w1)" "r = Inr Fetched" "w' = set_last (name repo) (instant E w) w1"
  | (cached) "head_exists (cache_dir repo) w" "\<not> (want_fetch \<and> fetch_due E cfg (slot_last (name repo) w) w)"
      "r = Inr Cached" "w' = w"
proof (cases "head_exists (cache_dir repo) w")
  case False
  obtain r1 w1 where c: "clone_mirror E L cfg repo w = (r1, w1)" by force
  then show ?thesis
    using assms False clone_failed cloned by (cases r1) (auto simp: refresh_mirror_def Let_def)
next
  case True
  obtain r1 w1 where c: "fetch E L cfg repo w = (r1, w1)" by force
  show ?thesis
  proof (cases "want_fetch \<and> fetch_due E cfg (slot_last (name repo) w) w")
    case due: True
    then show ?thesis
      using assms True c fetch_failed fetched by (cases r1) (auto simp: refresh_mirror_def Let_def)
  next
    case False
    then show ?thesis using assms True cached by (auto simp: refresh_mirror_def Let_def)
  qed
qed

section \<open>Relations the operations respect\<close>

locale pull_frame =
  fixes E :: "('e) io_env_scheme" and L :: "'l lru_ops" and cfg :: GitConfig and repo :: RepoRef
    and R :: "('l, 'z) cache_world_scheme \<Rightarrow> ('l, 'z) cache_world_scheme \<Rightarrow> bool"
  assumes R_refl: "R w w"
    and R_trans: "R w1 w2 \<Longrightarrow> R w2 w3 \<Longrightarrow> R w1 w3"
    and R_git: "io_context msg (run_git E c) w = (out, w') \<Longrightarrow> upstream_cmd cfg repo c \<or> mirror_cmd cfg repo c \<Longrightarrow> R w w'"
    and R_syscall: "io_context msg (syscall E op) w = (r, w') \<Longrightarrow> R w w'"
    and R_upstream: "run_upstream E c operation k staging w = (r, w') \<Longrightarrow> upstream_cmd cfg repo c \<Longrightarrow> R w w'"
    and R_metric: "list_all (good_call (name repo)) ms \<Longrightarrow> R w (metric ms w)"
    and R_mark: "R w (cache_mark_changed L repo w)"
begin

lemma after_metric: "R w w' \<Longrightarrow> list_all (good_call (name repo)) ms \<Longrightarrow> R w (metric ms w')"
  using R_trans R_metric by blast

lemma after_mark: "R w w' \<Longrightarrow> R w (cache_mark_changed L repo w')"
  using R_trans R_mark by blast

lemma create_parent_frame: "create_parent E repo w = (r, w') \<Longrightarrow> R w w'"
  by (cases "parent_path (cache_dir repo)") (auto simp: create_parent_def R_refl intro: R_syscall)

lemma fetch_frame: "fetch E L cfg repo w = (r, w') \<Longrightarrow> R w w'"
  by (erule fetch_cases) (auto intro!: after_metric after_mark dest: R_upstream)

lemma clone_frame:
  assumes "clone_mirror E L cfg repo w = (r, w')"
  shows "R w w'"
  using assms
proof (cases rule: clone_cases)
  case (parent e)
  then show ?thesis by (simp add: create_parent_frame)
next
  case (failed w1 e w2)
  then show ?thesis using R_trans[OF create_parent_frame R_upstream] by (auto intro!: after_metric)
next
  case (rename w1 w2 e)
  then show ?thesis using R_trans[OF R_trans[OF create_parent_frame R_upstream] R_syscall] by simp
next
  case (cloned w1 w2 w3 t)
  then have "R w w3" using R_trans[OF R_trans[OF create_parent_frame R_upstream] R_syscall] by simp
  then show ?thesis using cloned by (auto intro!: after_metric after_mark)
qed

lemma missing_oids_frame: "missing_oids E cfg repo S w = (r, w') \<Longrightarrow> R w w'"
  by (auto dest!: missing_oids_world intro: R_git)

lemma prune_wants_frame: "prune_wants E cfg repo w = (r, w') \<Longrightarrow> R w w'"
  by (erule prune_wants_world) (auto simp: R_refl dest!: R_git intro: R_trans)

lemma wanted_frame:
  assumes "ensure_wanted_oids E L cfg repo body w = (r, w')"
  shows "R w w'"
  using assms
proof (cases rule: ensure_wanted_world)
  case (tried r1 w1 ms r2 w2)
  then have "R w w2" using R_trans[OF missing_oids_frame R_git] by simp
  then show ?thesis using tried(3) by (auto intro: after_metric)
next
  case (fetched r1 w1 ms r2 w2 t)
  then have "R w w2" using R_trans[OF missing_oids_frame R_git] by simp
  then have "R w (cache_mark_changed L repo
      (metric (record_upstream WantFetch Ok (name repo) @ observe_upstream WantFetch (name repo) t) w2))"
    by (auto intro!: after_metric after_mark)
  then show ?thesis unfolding fetched(3) using R_trans prune_wants_frame[OF prod.collapse[symmetric]] by blast
qed (auto simp: R_refl missing_oids_frame)

end

locale fresh_frame = pull_frame +
  assumes R_last: "R w (set_last (name repo) t w)"
    and R_start: "R w (touch_index L (name repo) (slot (name repo) w))"
begin

lemma refresh_frame: "refresh_mirror E L cfg repo want_fetch w = (r, w') \<Longrightarrow> R w w'"
  by (erule refresh_cases) (auto simp: R_refl intro: clone_frame fetch_frame R_trans[OF _ R_last])

lemma ensure_fresh_frame:
  assumes "ensure_fresh E L cfg repo want_fetch body w = (r, w')"
  shows "R w w'"
proof -
  let ?w0 = "touch_index L (name repo) (slot (name repo) w)"
  obtain r1 w1 where c: "refresh_mirror E L cfg repo want_fetch ?w0 = (r1, w1)" by force
  obtain r2 w2 where d: "ensure_wanted_oids E L cfg repo body w1 = (r2, w2)" by force
  have k: "R w w1" using R_trans[OF R_start refresh_frame[OF c]] .
  have "w' = w1 \<or> w' = w2" using assms c d by (cases r1) (simp_all add: ensure_fresh_def)
  then show ?thesis using k R_trans[OF k wanted_frame[OF d]] by blast
qed

end

section \<open>Events\<close>

lemma emits_good_metric:
  "emits (mirror_event cfg repo) w w' \<Longrightarrow> list_all (good_call (name repo)) ms \<Longrightarrow>
     emits (mirror_event cfg repo) w (metric ms w')"
  by (rule emits_metric) (simp_all add: list_all_iff)

lemma emits_context_git:
  "io_context msg (run_git E c) w = (r, w') \<Longrightarrow> upstream_cmd cfg repo c \<or> mirror_cmd cfg repo c \<Longrightarrow>
     emits (mirror_event cfg repo) w w'"
  by (auto dest!: io_contextD intro: emits_run_git)

lemma emits_context_syscall: "io_context msg (syscall E op) w = (r, w') \<Longrightarrow> emits P w w'"
  by (auto dest!: io_contextD intro: emits_syscall)

lemma mark_changed_calls: "mark_changed L k idx = (idx', calls) \<Longrightarrow> list_all (good_call n) calls"
  by (auto simp: mark_changed_def set_gauges_def Let_def split: prod.splits)

lemma emits_cache_mark_changed:
  assumes "emits (mirror_event cfg repo) w w'"
  shows "emits (mirror_event cfg repo) w (cache_mark_changed L repo w')"
proof (cases "w_index w'")
  case None
  then show ?thesis using assms by (simp add: cache_mark_changed_def)
next
  case (Some idx)
  obtain idx' calls where m: "mark_changed L (name repo) idx = (idx', calls)" by force
  have "emits (mirror_event cfg repo) w (w'\<lparr>w_index := Some idx'\<rparr>)" using assms by (simp add: emits_def)
  then show ?thesis
    using Some m mark_changed_calls[OF m] by (simp add: cache_mark_changed_def emits_good_metric)
qed

lemma emits_upstream:
  "run_upstream E c op k staging w = (r, w') \<Longrightarrow> upstream_cmd cfg repo c \<Longrightarrow> emits (mirror_event cfg repo) w w'"
  by (erule emits_run_upstream) simp_all

interpretation events: fresh_frame E L cfg repo "emits (mirror_event cfg repo)" for E L cfg repo
  by unfold_locales
    (auto simp: emits_refl emits_same_trace set_last_def touch_index_def slot_def
      intro: emits_trans emits_context_git emits_context_syscall emits_upstream emits_good_metric emits_cache_mark_changed)

section \<open>Slots\<close>

lemma io_only_cache: "io_only w w' \<Longrightarrow> w_slots w' = w_slots w \<and> w_index w' = w_index w"
  by (cases w; cases w') (simp add: io_only_iff)

lemma w_slots_simps [simp]:
  "w_slots (metric ms w) = w_slots w" "w_slots (touch_index L k w) = w_slots w"
  "w_slots (set_last k t w) = (w_slots w)(k \<mapsto> Some t)" "w_slots (cache_mark_changed L repo w) = w_slots w"
  by (simp_all add: metric_def emit_def touch_index_def set_last_def cache_mark_changed_def split: option.split prod.split)

lemma w_tick_simps [simp]:
  "w_tick (touch_index L k w) = w_tick w" "w_tick (slot k w) = w_tick w"
  by (simp_all add: touch_index_def slot_def)

lemma w_fs_simps [simp]:
  "w_fs (touch_index L k w) = w_fs w" "w_fs (slot k w) = w_fs w" "w_fs (set_last k t w) = w_fs w"
  "w_fs (cache_mark_changed L repo w) = w_fs w"
  by (simp_all add: touch_index_def slot_def set_last_def cache_mark_changed_def split: option.split prod.split)

lemma instant_start [simp]: "instant E (touch_index L k (slot k' w)) = instant E w"
  by (simp add: instant_def)

interpretation slots: pull_frame E L cfg repo "\<lambda>w w'. w_slots w' = w_slots w" for E L cfg repo
  by unfold_locales
    (auto dest!: io_contextD dest: io_only_run_git io_only_syscall io_only_run_upstream io_only_cache)

end
