(* ===== verification/Freshness.thy ===== *)
theory Freshness
  imports Pull
begin

text \<open>
  What \<open>ensure_fresh\<close> and \<open>evict\<close> guarantee: which commands they run and which metrics they record, what they
  leave on disk, when upstream is contacted, and what the slot of the repository remembers.
\<close>

section \<open>What \<open>ensure_fresh\<close> decides\<close>

text \<open>What a run of \<open>ensure_fresh\<close> decides, and what the slot remembers.\<close>

lemma ensure_fresh_decision:
  assumes "ensure_fresh E L cfg repo want_fetch body w = (r, w')"
  shows "case r of
      Inl _ \<Rightarrow> w_slots w' = w_slots (slot (name repo) w)
    | Inr Cloned \<Rightarrow> \<not> head_exists (cache_dir repo) w \<and> slot_last (name repo) w' = Some (instant E w)
    | Inr Fetched \<Rightarrow> head_exists (cache_dir repo) w \<and> want_fetch \<and>
        fetch_due E cfg (slot_last (name repo) w) w \<and> slot_last (name repo) w' = Some (instant E w)
    | Inr Cached \<Rightarrow> head_exists (cache_dir repo) w \<and>
        \<not> (want_fetch \<and> fetch_due E cfg (slot_last (name repo) w) w) \<and>
        w_slots w' = w_slots (slot (name repo) w)"
proof -
  let ?w0 = "touch_index L (name repo) (slot (name repo) w)"
  obtain r1 w1 where c: "refresh_mirror E L cfg repo want_fetch ?w0 = (r1, w1)" by force
  have r: "r = r1" "w_slots w' = w_slots w1"
    using assms c slots.wanted_frame[OF prod.collapse[symmetric], of E L cfg repo body w1]
    by (cases r1; auto simp: ensure_fresh_def)+
  have w0: "head_exists (cache_dir repo) ?w0 = head_exists (cache_dir repo) w"
    "slot_last (name repo) ?w0 = slot_last (name repo) w"
    by (simp_all add: head_exists_def slot_last_def slot_def[of _ w])
  have due: "fetch_due E cfg l ?w0 = fetch_due E cfg l w" for l
    by (simp add: fetch_due_def since_def split: option.split)
  from c show ?thesis
    unfolding r(1)
    by (cases rule: refresh_cases)
      (auto simp: r(2) w0 due slots.clone_frame slots.fetch_frame slot_last_def[of _ w'])
qed

section \<open>Files\<close>

text \<open>
  What is relied on of the \<open>git\<close> binary: a command run in a directory changes files only below it and does
  not remove the \<open>HEAD\<close> of the repository there; \<open>git clone\<close> changes files only below its target directory,
  which has a \<open>HEAD\<close> when it succeeds.
\<close>

definition git_confined :: "('e) io_env_scheme \<Rightarrow> bool" where
  "git_confined E \<longleftrightarrow>
     (\<forall>n c f out f'. git E n c f = (out, f') \<longrightarrow>
        (\<forall>d. cwd c = Some d \<longrightarrow> same_outside [components d] f f' \<and>
           (fs_lookup f (components d @ [Normal ''HEAD'']) \<noteq> None \<longrightarrow>
            fs_lookup f' (components d @ [Normal ''HEAD'']) \<noteq> None)) \<and>
        (\<forall>url d. args c = [''clone'', ''--mirror'', ''--quiet'', url, d] \<and> cwd c = None \<longrightarrow>
           same_outside [components d] f f' \<and>
           (out_status out = Inr (Exited 0) \<longrightarrow> fs_lookup f' (components d @ [Normal ''HEAD'']) \<noteq> None)))"

lemma git_in_dir:
  assumes "git_confined E" "git E n c f = (out, f')" "cwd c = Some d"
  shows "same_outside [components d] f f'"
    "fs_lookup f (components d @ [Normal ''HEAD'']) \<noteq> None \<Longrightarrow> fs_lookup f' (components d @ [Normal ''HEAD'']) \<noteq> None"
  using assms unfolding git_confined_def by blast+

lemma git_clone_law:
  assumes "git_confined E" "git E n c f = (out, f')" "args c = [''clone'', ''--mirror'', ''--quiet'', url, d]" "cwd c = None"
  shows "same_outside [components d] f f'"
    "out_status out = Inr (Exited 0) \<Longrightarrow> fs_lookup f' (components d @ [Normal ''HEAD'']) \<noteq> None"
  using assms unfolding git_confined_def by blast+

lemma cmd_dirs [simp]:
  "cwd (refresh_cmd cfg repo) = Some (cache_dir repo)" "cwd (want_fetch_cmd cfg repo ms) = Some (cache_dir repo)"
  "cwd (cat_file_cmd cfg repo oids) = Some (cache_dir repo)" "cwd (for_each_ref_cmd cfg repo) = Some (cache_dir repo)"
  "cwd (update_ref_cmd cfg repo stale) = Some (cache_dir repo)" "cwd (clone_cmd cfg repo) = None"
  by (simp_all add: refresh_cmd_def want_fetch_cmd_def cat_file_cmd_def for_each_ref_cmd_def update_ref_cmd_def
      clone_cmd_def add_args_def current_dir_def fetch_cmd_def command_new_def)

lemma clone_args: "args (clone_cmd cfg repo) =
    [''clone'', ''--mirror'', ''--quiet'', upstream_url repo, staging_dir (cache_dir repo)]"
  by (simp add: clone_cmd_def add_args_def fetch_cmd_def command_new_def)

text \<open>The files of one repository: its mirror and its staging directory.\<close>

abbreviation repo_trees :: "RepoRef \<Rightarrow> fpath list" where
  "repo_trees repo \<equiv> [components (cache_dir repo), components (staging_dir (cache_dir repo))]"

text \<open>\<open>mirror_step E repo w w'\<close>: nothing outside the repository's trees is changed, and a \<open>HEAD\<close> stays.\<close>

definition mirror_step :: "RepoRef \<Rightarrow> ('z) io_world_scheme \<Rightarrow> ('z) io_world_scheme \<Rightarrow> bool" where
  "mirror_step repo w w' \<longleftrightarrow> keeps_outside (repo_trees repo) (w_fs w) (w_fs w') \<and>
     (fs_lookup (w_fs w) (components (cache_dir repo) @ [Normal ''HEAD'']) \<noteq> None \<longrightarrow>
      fs_lookup (w_fs w') (components (cache_dir repo) @ [Normal ''HEAD'']) \<noteq> None)"

lemma mirror_step_refl [simp]: "mirror_step repo w w"
  by (simp add: mirror_step_def)

lemma mirror_step_trans: "mirror_step repo u v \<Longrightarrow> mirror_step repo v w \<Longrightarrow> mirror_step repo u w"
  unfolding mirror_step_def using keeps_outside_trans by blast

lemma mirror_step_fs: "w_fs v = w_fs v' \<Longrightarrow> mirror_step repo u v \<longleftrightarrow> mirror_step repo u v'"
  by (simp add: mirror_step_def)

lemma mirror_step_git:
  assumes "git_confined E" "run_git E c w = (r, w')" "cwd c = Some (cache_dir repo)"
  shows "mirror_step repo w w'"
proof (cases r)
  case (Inl e)
  then show ?thesis using assms(2) run_git_Inl[of E c w e w'] by (simp add: mirror_step_def)
next
  case (Inr out)
  then have g: "git E (w_tick w) c (w_fs w) = (out, w_fs w')" using assms(2) run_git_Inr by blast
  show ?thesis
    using git_in_dir[OF assms(1) g assms(3)] keeps_outside_same[of "[components (cache_dir repo)]"]
    by (simp add: mirror_step_def)
qed

lemma mirror_step_context_git:
  assumes "git_confined E" "io_context msg (run_git E c) w = (r, w')" "cwd c = Some (cache_dir repo)"
  shows "mirror_step repo w w'"
  using assms(2) mirror_step_git[OF assms(1) _ assms(3)] by (auto dest!: io_contextD)

lemma mirror_step_refresh:
  assumes "git_confined E" "run_upstream E c op k None w = (r, w')" "cwd c = Some (cache_dir repo)"
  shows "mirror_step repo w w'"
  using assms(2) unfolding run_upstream_def
proof (rule run_upstream_from_rel[where R = "mirror_step repo"])
  fix u d show "mirror_step repo u (emit [Slept d] u)" by (simp add: mirror_step_def)
qed (use assms in \<open>auto simp: clean_staging_opt_def intro: mirror_step_trans mirror_step_git\<close>)

lemma fetch_step:
  assumes "git_confined E" "fetch E L cfg repo w = (r, w')"
  shows "mirror_step repo w w'"
  using assms(2)
proof (cases rule: fetch_cases)
  case (failed e w1)
  show ?thesis using mirror_step_refresh[OF assms(1) failed(1)] failed(3) by (simp add: mirror_step_def)
next
  case (fetched w1 t)
  show ?thesis using mirror_step_refresh[OF assms(1) fetched(1)] fetched(3) by (simp add: mirror_step_def)
qed

lemma prune_wants_step:
  assumes "git_confined E" "prune_wants E cfg repo w = (r, w')"
  shows "mirror_step repo w w'"
  using assms(2)
  by (cases rule: prune_wants_world)
    (auto dest!: mirror_step_context_git[OF assms(1), where repo = repo] intro: mirror_step_trans)

lemma missing_oids_step: "missing_oids E cfg repo S u = (r, v) \<Longrightarrow> git_confined E \<Longrightarrow> mirror_step repo u v"
  by (auto dest!: missing_oids_world intro: mirror_step_context_git)

lemma ensure_wanted_step:
  assumes "git_confined E" "ensure_wanted_oids E L cfg repo body w = (r, w')"
  shows "mirror_step repo w w'"
  using assms(2)
proof (cases rule: ensure_wanted_world)
  case (tried r1 w1 ms r2 w2)
  have "mirror_step repo w w2"
    using mirror_step_trans[OF missing_oids_step[OF tried(1) assms(1)] mirror_step_context_git[OF assms(1) tried(2)]] by simp
  then show ?thesis using tried(3) by (auto simp: mirror_step_def)
next
  case (fetched r1 w1 ms r2 w2 t)
  let ?w3 = "cache_mark_changed L repo
      (metric (record_upstream WantFetch Ok (name repo) @ observe_upstream WantFetch (name repo) t) w2)"
  have "mirror_step repo w w2"
    using mirror_step_trans[OF missing_oids_step[OF fetched(1) assms(1)] mirror_step_context_git[OF assms(1) fetched(2)]] by simp
  then have "mirror_step repo w ?w3" by (simp add: mirror_step_def)
  moreover have "mirror_step repo ?w3 w'"
    unfolding fetched(3) by (rule prune_wants_step[OF assms(1)]) (rule prod.collapse[symmetric])
  ultimately show ?thesis by (rule mirror_step_trans)
qed (auto simp: missing_oids_step[OF _ assms(1)])

text \<open>A clone works below the staging directory, then moves it into place.\<close>

lemma suffixed_dir_apart:
  assumes "resolve n up root = Inr r" "reserved_suffix s"
  shows "\<not> prefix (components (cache_dir r @ s)) (components (cache_dir r))"
    "\<not> prefix (components (cache_dir r)) (components (cache_dir r @ s))"
proof -
  show apart: "\<not> prefix (components (cache_dir r @ s)) (components (cache_dir r))"
    using reserved_suffix_not_prefix[OF assms(1,1,2)] .
  have "CHR ''/'' \<notin> set s"
    using assms(2) by (auto simp: reserved_suffix_def INCOMING_SUFFIX_def EVICTING_SUFFIX_def)
  then have "length (split_on (CHR ''/'') (n @ s)) = length (split_on (CHR ''/'') n)"
    using split_on_append_last[of "CHR ''/''" s n] by simp
  then have "length (components (cache_dir r)) = length (components (cache_dir r @ s))"
    by (simp add: components_cache_dir[OF assms(1)] components_suffixed_dir[OF assms])
  then show "\<not> prefix (components (cache_dir r)) (components (cache_dir r @ s))"
    using apart by (metis not_equal_is_parallel parallelD1 prefix_order.refl)
qed

lemma clone_git_outside:
  assumes "git_confined E" "git E m (clone_cmd cfg repo) f = (out, f')"
  shows "keeps_outside (repo_trees repo) f f'"
  using git_clone_law(1)[OF assms clone_args cmd_dirs(6)] by (rule keeps_outside_same) simp

lemma create_parent_outside:
  assumes "create_parent E repo w = (r, w')"
  shows "keeps_outside ps (w_fs w) (w_fs w')"
proof (cases "parent_path (cache_dir repo)")
  case None
  then show ?thesis using assms by (simp add: create_parent_def)
next
  case (Some p)
  then obtain r' where s: "syscall E (fs_create_dir_all p) w = (r', w')"
    using assms by (auto simp: create_parent_def dest!: io_contextD)
  then have "w_fs w' = w_fs w \<or> fs_create_dir_all p (w_fs w) = (r', w_fs w')"
    by (cases r') (auto dest: syscall_Inl syscall_Inr)
  then show ?thesis using keeps_outside_create by fastforce
qed

lemma clone_run_outside:
  "git_confined E \<Longrightarrow>
   run_upstream E (clone_cmd cfg repo) op k (Some (staging_dir (cache_dir repo))) u = (q, v) \<Longrightarrow>
     keeps_outside (repo_trees repo) (w_fs u) (w_fs v)"
  by (erule keeps_outside_run_upstream[OF _ clone_git_outside]) auto

lemma clone_rename_outside:
  "io_context msg (io_rename E (staging_dir (cache_dir repo)) (cache_dir repo)) u = (q, v) \<Longrightarrow>
     keeps_outside (repo_trees repo) (w_fs u) (w_fs v)"
  by (auto dest!: io_contextD intro!: keeps_outside_rename)

lemma clone_outside:
  assumes "git_confined E" "clone_mirror E L cfg repo w = (r, w')"
  shows "keeps_outside (repo_trees repo) (w_fs w) (w_fs w')"
  using assms(2)
proof (cases rule: clone_cases)
  case (parent e)
  then show ?thesis by (simp add: create_parent_outside)
next
  case (failed w1 e w2)
  then show ?thesis
    using keeps_outside_trans[OF create_parent_outside clone_run_outside[OF assms(1)]] by (metis metric_simps(1))
next
  case (rename w1 w2 e)
  then show ?thesis
    using keeps_outside_trans[OF keeps_outside_trans[OF create_parent_outside clone_run_outside[OF assms(1)]]
        clone_rename_outside] by metis
next
  case (cloned w1 w2 w3 t)
  then have "keeps_outside (repo_trees repo) (w_fs w) (w_fs w3)"
    using keeps_outside_trans[OF keeps_outside_trans[OF create_parent_outside clone_run_outside[OF assms(1)]]
        clone_rename_outside] by metis
  then show ?thesis using cloned(5) by simp
qed

lemma rename_moves:
  assumes "syscall E (fs_rename p q) w = (Inr u, w')" "\<not> prefix p q" "\<not> prefix q p"
  shows "fs_lookup (w_fs w') (q @ r) = fs_lookup (w_fs w) (p @ r)"
proof -
  have "fs_rename p q (w_fs w) = (Inr u, w_fs w')" using assms(1) syscall_Inr by blast
  then have "w_fs w' = fs_move p q (w_fs w)" using fs_rename_Inr assms(2) by blast
  then show ?thesis by (simp add: fs_lookup_move[OF assms(2,3)])
qed

lemma cloned_head:
  assumes "git_confined E" "resolve n up root = Inr repo" "clone_mirror E L cfg repo w = (Inr u, w')"
  shows "fs_lookup (w_fs w') (components (cache_dir repo) @ [Normal ''HEAD'']) \<noteq> None"
  using assms(3)
proof (cases rule: clone_cases)
  case (cloned w1 w2 w3 t)
  let ?tmp = "staging_dir (cache_dir repo)"
  obtain m f out where g: "git E m (clone_cmd cfg repo) f = (out, w_fs w2)" "out_status out = Inr (Exited 0)"
    using run_upstream_success[OF cloned(2)] by blast
  have "fs_lookup (w_fs w2) (components ?tmp @ [Normal ''HEAD'']) \<noteq> None"
    using git_clone_law(2)[OF assms(1) g(1) clone_args cmd_dirs(6) g(2)] .
  moreover have "syscall E (fs_rename (components ?tmp) (components (cache_dir repo))) w2 = (Inr (), w3)"
    using cloned(3) by (simp add: io_context_Inr)
  moreover have "\<not> prefix (components ?tmp) (components (cache_dir repo))"
    "\<not> prefix (components (cache_dir repo)) (components ?tmp)"
    using suffixed_dir_apart[OF assms(2), of INCOMING_SUFFIX] by (simp_all add: staging_dir_def reserved_suffix_def)
  ultimately have "fs_lookup (w_fs w3) (components (cache_dir repo) @ [Normal ''HEAD'']) \<noteq> None"
    using rename_moves by metis
  then show ?thesis using cloned(5) by simp
qed simp_all

text \<open>Hence \<open>ensure_fresh\<close>: it changes nothing outside the repository's trees, and leaves a mirror.\<close>

lemma refresh_outside:
  assumes "git_confined E" "refresh_mirror E L cfg repo want_fetch w = (r, w')"
  shows "keeps_outside (repo_trees repo) (w_fs w) (w_fs w')"
  using assms(2)
  by (cases rule: refresh_cases)
    (auto dest!: clone_outside[OF assms(1)] fetch_step[OF assms(1)] simp: mirror_step_def)

lemma head_path: "components (path_join d ''HEAD'') = components d @ [Normal ''HEAD'']"
  using components_join[of "''HEAD''" d] by (simp add: plain_name_def)

lemma head_exists_lookup:
  "head_exists d w \<Longrightarrow> fs_lookup (w_fs w) (components d @ [Normal ''HEAD'']) \<noteq> None"
  by (simp add: head_exists_def head_path fs_exists_iff)

lemma refresh_head:
  assumes "git_confined E" "resolve n up root = Inr repo" "refresh_mirror E L cfg repo want_fetch w = (Inr o', w')"
  shows "fs_lookup (w_fs w') (components (cache_dir repo) @ [Normal ''HEAD'']) \<noteq> None"
  using assms(3)
proof (cases rule: refresh_cases)
  case (cloned w1)
  then show ?thesis using cloned_head[OF assms(1,2)] by simp
next
  case (fetched w1)
  then show ?thesis
    using fetch_step[OF assms(1) fetched(4)] head_exists_lookup[OF fetched(1)] by (simp add: mirror_step_def)
next
  case cached
  then show ?thesis using head_exists_lookup by blast
qed simp_all

lemma ensure_fresh_files:
  assumes "git_confined E" "ensure_fresh E L cfg repo want_fetch body w = (r, w')"
  shows "keeps_outside (repo_trees repo) (w_fs w) (w_fs w')"
    "resolve n up root = Inr repo \<Longrightarrow> r = Inr out \<Longrightarrow>
       fs_lookup (w_fs w') (components (cache_dir repo) @ [Normal ''HEAD'']) \<noteq> None"
proof -
  let ?w0 = "touch_index L (name repo) (slot (name repo) w)"
  obtain r1 w1 where c: "refresh_mirror E L cfg repo want_fetch ?w0 = (r1, w1)" by force
  obtain r2 w2 where d: "ensure_wanted_oids E L cfg repo body w1 = (r2, w2)" by force
  have k1: "keeps_outside (repo_trees repo) (w_fs w) (w_fs w1)" using refresh_outside[OF assms(1) c] by simp
  have k2: "mirror_step repo w1 w2" using ensure_wanted_step[OF assms(1) d] .
  have w': "(if isl r1 then r = r1 \<and> w' = w1 else r = r1 \<and> w' = w2)"
    using assms(2) c d by (cases r1) (auto simp: ensure_fresh_def)
  show "keeps_outside (repo_trees repo) (w_fs w) (w_fs w')"
    using k1 k2 keeps_outside_trans w' unfolding mirror_step_def by (metis (full_types))
  show "fs_lookup (w_fs w') (components (cache_dir repo) @ [Normal ''HEAD'']) \<noteq> None"
    if "resolve n up root = Inr repo" "r = Inr out"
    using refresh_head[OF assms(1) that(1)] c w' that(2) k2 unfolding mirror_step_def
    by (metis isl_def sum.disc(2))
qed

section \<open>Eviction\<close>

lemma evict_cases:
  assumes "evict E k dir w = (r, w')"
  obtains
    (absent) "\<not> head_exists dir w" "r = Inr ()" "w' = slot k w"
  | (failed) r2 w2 e where "head_exists dir w" "io_remove_dir_all E (trash_dir dir) (slot k w) = (r2, w2)"
      "io_rename E dir (trash_dir dir) w2 = (Inl e, w')" "r = Inl (IoFail (''rename mirror for eviction: '' @ k) e)"
  | (moved) r2 w2 w3 r4 where "head_exists dir w" "io_remove_dir_all E (trash_dir dir) (slot k w) = (r2, w2)"
      "io_rename E dir (trash_dir dir) w2 = (Inr (), w3)" "io_remove_dir_all E (trash_dir dir) w3 = (r4, w')" "r = Inr ()"
proof (cases "head_exists dir w")
  case False
  then show ?thesis using assms absent by (simp add: evict_def head_exists_def)
next
  case True
  obtain r2 w2 where c2: "io_remove_dir_all E (trash_dir dir) (slot k w) = (r2, w2)" by force
  obtain r3 w3 where c3: "io_rename E dir (trash_dir dir) w2 = (r3, w3)" by force
  obtain r4 w4 where c4: "io_remove_dir_all E (trash_dir dir) w3 = (r4, w4)" by force
  have h: "head_exists dir (slot k w)" using True by (simp add: head_exists_def)
  note unfold = assms[unfolded evict_def Let_def io_ignore_def c2 snd_conv io_context_def c3 prod.case]
  show ?thesis
  proof (cases r3)
    case (Inl e)
    have "r = Inl (IoFail (''rename mirror for eviction: '' @ k) e)" "w' = w3"
      using unfold h unfolding Inl by simp_all
    then show ?thesis using failed True c2 c3 Inl by simp
  next
    case (Inr u)
    have "r = Inr ()" "w' = w4" using unfold h c4 unfolding Inr by simp_all
    then show ?thesis using moved True c2 c3 c4 Inr by simp
  qed
qed

lemma evict_outside:
  assumes "evict E k dir w = (r, w')"
  shows "same_outside [components dir, components (trash_dir dir)] (w_fs w) (w_fs w')"
proof -
  let ?ps = "[components dir, components (trash_dir dir)]"
  have rm: "same_outside ?ps (w_fs u) (w_fs v)" if "io_remove_dir_all E (trash_dir dir) u = (q, v)" for q u v
    using same_outside_io_remove_dir_all[OF that] by (rule same_outside_mono) simp
  have mv: "same_outside ?ps (w_fs u) (w_fs v)" if "io_rename E dir (trash_dir dir) u = (q, v)" for q u v
  proof -
    have "w_fs v = w_fs u \<or> fs_rename (components dir) (components (trash_dir dir)) (w_fs u) = (q, w_fs v)"
      using that by (cases q) (auto dest: syscall_Inl syscall_Inr)
    then show ?thesis using same_outside_rename same_outside_refl by metis
  qed
  from assms show ?thesis
  proof (cases rule: evict_cases)
    case absent
    then show ?thesis by simp
  next
    case (failed r2 w2 e)
    show ?thesis using same_outside_trans[OF rm[OF failed(2)] mv[OF failed(3)]] by simp
  next
    case (moved r2 w2 w3 r4)
    show ?thesis
      using same_outside_trans[OF same_outside_trans[OF rm[OF moved(2)] mv[OF moved(3)]] rm[OF moved(4)]] by simp
  qed
qed

lemma evict_no_head:
  assumes "resolve n up root = Inr repo" "evict E k (cache_dir repo) w = (Inr u, w')"
  shows "\<not> head_exists (cache_dir repo) w'"
  using assms(2)
proof (cases rule: evict_cases)
  case absent
  then show ?thesis by (simp add: head_exists_def)
next
  case (moved r2 w2 w3 r4)
  let ?d = "components (cache_dir repo)" and ?t = "components (trash_dir (cache_dir repo))"
  have apart: "\<not> prefix ?d ?t" "\<not> prefix ?t ?d"
    using suffixed_dir_apart[OF assms(1), of EVICTING_SUFFIX] by (simp_all add: trash_dir_def reserved_suffix_def)
  have len: "\<not> prefix ?t (?d @ [Normal ''HEAD''])"
  proof
    assume "prefix ?t (?d @ [Normal ''HEAD''])"
    then have "?t = ?d @ [Normal ''HEAD''] \<or> prefix ?t ?d" by simp
    then show False using apart by auto
  qed
  have "fs_rename ?d ?t (w_fs w2) = (Inr (), w_fs w3)" using moved(3) syscall_Inr by blast
  from fs_rename_Inr[OF this] have "w_fs w3 = fs_move ?d ?t (w_fs w2)" using apart by auto
  then have "fs_lookup (w_fs w3) (?d @ [Normal ''HEAD'']) = None"
    using len by (simp add: fs_lookup_move[OF apart])
  moreover have "fs_lookup (w_fs w') (?d @ [Normal ''HEAD'']) = fs_lookup (w_fs w3) (?d @ [Normal ''HEAD''])"
    using same_outsideD[OF same_outside_io_remove_dir_all[OF moved(4)], of "?d @ [Normal ''HEAD'']"] len by simp
  ultimately show ?thesis by (simp add: head_exists_def head_path fs_exists_iff)
qed simp_all

lemma evict_failed_keeps:
  assumes "resolve n up root = Inr repo" "evict E k (cache_dir repo) w = (Inl e, w')"
  shows "same_outside [components (trash_dir (cache_dir repo))] (w_fs w) (w_fs w')"
  using assms(2)
proof (cases rule: evict_cases)
  case (failed r2 w2 e')
  have "w_fs w' = w_fs w2" using syscall_Inl[OF failed(3)] by (auto dest: fs_rename_Inl)
  then show ?thesis using same_outside_io_remove_dir_all[OF failed(2)] by simp
qed simp_all

section \<open>What the commands are\<close>

definition upstream_args :: "GitConfig \<Rightarrow> RepoRef \<Rightarrow> string list \<Rightarrow> bool" where
  "upstream_args cfg repo as \<longleftrightarrow>
     as = [''clone'', ''--mirror'', ''--quiet'', upstream_url repo, staging_dir (cache_dir repo)] \<or>
     as = [''fetch'', ''--prune'', ''--quiet'', ''origin'', ''+refs/*:refs/*'', ''^refs/proxy-wants/*''] \<or>
     (\<exists>oids. as = [''fetch'', ''--no-tags'', ''--quiet'', ''origin''] @
         map (\<lambda>oid. ''+'' @ oid @ '':refs/proxy-wants/'' @ oid) oids \<and>
       (max_wants cfg = 0 \<or> length oids \<le> max_wants cfg))"

definition local_args :: "string list \<Rightarrow> bool" where
  "local_args as \<longleftrightarrow>
     as = [''cat-file'', ''--batch-check''] \<or>
     as = [''for-each-ref'', ''--sort=-creatordate'', ''--format=%(refname)'', ''refs/proxy-wants/''] \<or>
     as = [''update-ref'', ''--stdin'']"

definition read_only_event :: "GitConfig \<Rightarrow> RepoRef \<Rightarrow> io_event \<Rightarrow> bool" where
  "read_only_event cfg repo e \<longleftrightarrow>
     (case e of
        Spawned c _ \<Rightarrow> program c = git_binary cfg \<and>
          (upstream_args (cfg\<lparr>upstream_auth_header := None\<rparr>) repo (args c) \<and> env c = env (fetch_cmd cfg) \<or>
           local_args (args c) \<and> env c = [])
      | Slept _ \<Rightarrow> True
      | MetricCall m \<Rightarrow> good_call (name repo) m)"

lemma fetch_cmd_simps [simp]:
  "program (fetch_cmd cfg) = git_binary cfg" "args (fetch_cmd cfg) = []" "cwd (fetch_cmd cfg) = None"
  by (simp_all add: fetch_cmd_def command_new_def)

lemma upstream_cmd_read_only: "upstream_cmd cfg repo c \<Longrightarrow> read_only_event cfg repo (Spawned c out)"
  unfolding upstream_cmd_def
proof (elim disjE exE conjE)
  fix ms assume c: "c = want_fetch_cmd cfg repo ms" and len: "0 < max_wants cfg \<longrightarrow> length ms \<le> max_wants cfg"
  have "args c = [''fetch'', ''--no-tags'', ''--quiet'', ''origin''] @ map (\<lambda>oid. ''+'' @ oid @ '':refs/proxy-wants/'' @ oid) ms"
    by (simp add: c want_fetch_cmd_def add_args_def current_dir_def PROXY_WANTS_NS_def)
  then have "upstream_args (cfg\<lparr>upstream_auth_header := None\<rparr>) repo (args c)"
    unfolding upstream_args_def using len by (intro disjI2 exI[of _ ms]) auto
  then show ?thesis by (simp add: read_only_event_def c want_fetch_cmd_def add_args_def current_dir_def)
next
  assume c: "c = clone_cmd cfg repo"
  have "upstream_args (cfg\<lparr>upstream_auth_header := None\<rparr>) repo (args c)"
    unfolding upstream_args_def c clone_args by (intro disjI1) simp
  then show ?thesis by (simp add: read_only_event_def c clone_cmd_def add_args_def)
next
  assume c: "c = refresh_cmd cfg repo"
  have "upstream_args (cfg\<lparr>upstream_auth_header := None\<rparr>) repo (args c)"
    unfolding upstream_args_def
    by (intro disjI2 disjI1) (simp add: c refresh_cmd_def add_args_def current_dir_def PROXY_WANTS_NS_def)
  then show ?thesis by (simp add: read_only_event_def c refresh_cmd_def add_args_def current_dir_def)
qed

lemma mirror_cmd_read_only: "mirror_cmd cfg repo c \<Longrightarrow> read_only_event cfg repo (Spawned c out)"
  by (auto simp: mirror_cmd_def read_only_event_def local_args_def cat_file_cmd_def for_each_ref_cmd_def
      update_ref_cmd_def add_args_def current_dir_def command_new_def PROXY_WANTS_NS_def)

lemma mirror_event_read_only: "mirror_event cfg repo e \<Longrightarrow> read_only_event cfg repo e"
  by (cases e) (auto simp: upstream_cmd_read_only mirror_cmd_read_only, auto simp: read_only_event_def)

section \<open>A sample environment\<close>

text \<open>A \<open>git\<close> that succeeds and, when cloning, creates the target with a \<open>HEAD\<close>, for the witnesses.\<close>

definition sample_git :: "nat \<Rightarrow> git_cmd \<Rightarrow> fs \<Rightarrow> git_out \<times> fs" where
  "sample_git n c f =
     (\<lparr>stdin_write = Inr (), out_status = Inr (Exited 0), stderr_reads = [], stdout = ''refs''\<rparr>,
      if cwd c = None \<and> length (args c) = 5 \<and> take 1 (args c) = [''clone'']
      then fs_put (components (args c ! 4) @ [Normal ''HEAD'']) (File ''ref'' 0) (fs_put (components (args c ! 4)) Dir f)
      else f)"

definition sample_env :: io_env where
  "sample_env = \<lparr>fault = \<lambda>_. False, hash_iter = \<lambda>_. [], fault_keeps = \<lambda>_ _. False, clock = \<lambda>n. 100 + n, git = sample_git\<rparr>"

definition sample_cfg :: GitConfig where
  "sample_cfg = \<lparr>git_binary = ''git'', upstream_auth_header = Some ''Authorization: x'', big_file_threshold = ''1m'',
     fetch_ttl = 50, max_wants = 2, max_upload_packs = 1, pack_threads = None, pack_window_memory = None\<rparr>"

definition sample_repo :: RepoRef where
  "sample_repo = \<lparr>name = ''g/r'', upstream_url = ''https://up/g/r'', cache_dir = ''/c/g/r''\<rparr>"

definition sample_world :: "(string \<times> u64) list cache_world" where
  "sample_world = \<lparr>w_fs = \<lparr>entries = [([RootDir], Dir), ([RootDir, Normal ''c''], Dir)], deny = []\<rparr>,
     w_tick = 0, w_trace = [], w_slots = Map.empty, w_index = None\<rparr>"

lemma sample_resolve: "resolve ''g/r'' ''https://up'' ''/c'' = Inr sample_repo"
  by code_simp

lemma sample_confined: "git_confined sample_env"
proof -
  have "same_outside [p] f (fs_put (p @ [Normal ''HEAD'']) m (fs_put p Dir f))" for p m f
    by (auto simp: same_outside_def fs_lookup_put prefix_def)
  then show ?thesis
    by (auto simp: git_confined_def sample_env_def sample_git_def fs_lookup_put)
qed

section \<open>Properties\<close>

text \<open>C20: Serving one repository leaves the others alone and has a mirror to serve from. Whatever the
  outcome of \<open>ensure_fresh\<close>, every file and directory that existed outside the repository's own mirror and
  staging directories is unchanged and nothing appears there but directories; when it returns successfully, the
  mirror has its \<open>HEAD\<close>.\<close>

theorem ensure_fresh_mirror:
  assumes "git_confined E" "resolve n up root = Inr repo"
    and "ensure_fresh E L cfg repo want_fetch body w = (r, w')"
  shows "(\<forall>q. \<not> prefix (components (cache_dir repo)) q \<and> \<not> prefix (components (staging_dir (cache_dir repo))) q \<longrightarrow>
            fs_lookup (w_fs w') q = fs_lookup (w_fs w) q \<or>
            fs_lookup (w_fs w) q = None \<and> fs_lookup (w_fs w') q = Some Dir) \<and>
         (\<forall>outcome. r = Inr outcome \<longrightarrow>
            fs_lookup (w_fs w') (components (cache_dir repo) @ [Normal ''HEAD'']) \<noteq> None)"
  using ensure_fresh_files[OF assms(1,3)] assms(2) unfolding keeps_outside_def kept_at_def by auto

theorem ensure_fresh_mirror_witness:
  "fst (ensure_fresh sample_env list_lru sample_cfg sample_repo True [] sample_world) = Inr Cloned \<and>
   fs_lookup (w_fs (snd (ensure_fresh sample_env list_lru sample_cfg sample_repo True [] sample_world)))
     [RootDir, Normal ''c'', Normal ''g'', Normal ''r'', Normal ''HEAD''] \<noteq> None"
proof -
  have r: "fst (ensure_fresh sample_env list_lru sample_cfg sample_repo True [] sample_world) = Inr Cloned"
    by code_simp
  moreover have "components (cache_dir sample_repo) = [RootDir, Normal ''c'', Normal ''g'', Normal ''r'']"
    by code_simp
  ultimately show ?thesis
    using ensure_fresh_mirror[OF sample_confined sample_resolve,
        of list_lru sample_cfg True "[]" sample_world, OF prod.collapse[symmetric]] by simp
qed

text \<open>C21: Upstream is contacted only when it has to be. \<open>ensure_fresh\<close> clones exactly when the mirror has no
  \<open>HEAD\<close>, fetches exactly when it has one, a fetch is wanted and the last pull is not within the TTL, and
  otherwise answers from the cache. The instant remembered after a clone or fetch is when it
  started, and a failure or a cached answer leaves what is remembered as it was.\<close>

theorem ensure_fresh_decides:
  "case ensure_fresh E L cfg repo want_fetch body w of (r, w') \<Rightarrow>
     (case r of
        Inl _ \<Rightarrow> slot_last k w' = slot_last k w
      | Inr Cloned \<Rightarrow> \<not> head_exists (cache_dir repo) w \<and> slot_last (name repo) w' = Some (instant E w)
      | Inr Fetched \<Rightarrow> head_exists (cache_dir repo) w \<and> want_fetch \<and>
          fetch_due E cfg (slot_last (name repo) w) w \<and> slot_last (name repo) w' = Some (instant E w)
      | Inr Cached \<Rightarrow> head_exists (cache_dir repo) w \<and>
          \<not> (want_fetch \<and> fetch_due E cfg (slot_last (name repo) w) w) \<and> slot_last k w' = slot_last k w)"
proof -
  obtain r w' where run: "ensure_fresh E L cfg repo want_fetch body w = (r, w')" by force
  have same: "slot_last k w' = slot_last k w" if "w_slots w' = w_slots (slot (name repo) w)"
    unfolding slot_last_def that by (simp add: slot_def)
  show ?thesis
    using ensure_fresh_decision[OF run] run by (auto simp: same split: sum.splits CacheOutcome.splits)
qed

text \<open>C16: A request within the TTL is answered without running anything: when the mirror exists, the last pull
  is within the TTL (or no fetch is wanted), and the request names no object, \<open>ensure_fresh\<close> starts no
  process, records no metric and changes no file; it only marks the repository as used.\<close>

theorem cached_answer_is_local:
  assumes "head_exists (cache_dir repo) w" "\<not> (want_fetch \<and> fetch_due E cfg (slot_last (name repo) w) w)"
    and "parse_wants body = {}"
  shows "ensure_fresh E L cfg repo want_fetch body w =
    (Inr Cached, touch_index L (name repo) (slot (name repo) w))"
proof -
  let ?w0 = "touch_index L (name repo) (slot (name repo) w)"
  have "head_exists (cache_dir repo) ?w0" "slot_last (name repo) ?w0 = slot_last (name repo) w"
    using assms(1) by (simp_all add: head_exists_def slot_last_def slot_def[of _ w])
  moreover have "fetch_due E cfg l ?w0 = fetch_due E cfg l w" for l
    by (simp add: fetch_due_def since_def split: option.split)
  ultimately have "refresh_mirror E L cfg repo want_fetch ?w0 = (Inr Cached, ?w0)"
    using assms(2) by (auto simp: refresh_mirror_def Let_def)
  then show ?thesis using assms(3) by (simp add: ensure_fresh_def ensure_wanted_oids_def)
qed

theorem cached_answer_is_local_witness:
  "let w = sample_world\<lparr>w_fs := sample_fs, w_slots := [''g/r'' \<mapsto> Some 80]\<rparr>
   in ensure_fresh sample_env list_lru sample_cfg sample_repo True ''0000'' w =
        (Inr Cached, touch_index list_lru ''g/r'' (slot ''g/r'' w))"
proof -
  let ?w = "sample_world\<lparr>w_fs := sample_fs, w_slots := [''g/r'' \<mapsto> Some 80]\<rparr>"
  have "head_exists (cache_dir sample_repo) ?w" by code_simp
  moreover have "\<not> (True \<and> fetch_due sample_env sample_cfg (slot_last (name sample_repo) ?w) ?w)"
    by (simp add: fetch_due_def slot_last_def since_def instant_def sample_env_def sample_cfg_def sample_repo_def
        sample_world_def)
  moreover have "parse_wants ''0000'' = {}" by code_simp
  ultimately show ?thesis
    using cached_answer_is_local[of sample_repo ?w True sample_env sample_cfg "''0000''" list_lru]
    by (simp add: Let_def sample_repo_def)
qed

text \<open>C22: The TTL window is counted from the start of the last pull: after a clone or fetch that started at
  some instant, a request that finds the mirror in place is a cache hit as long as less than the TTL has
  passed since that instant, and is not one afterwards (nor ever with a TTL of zero).\<close>

theorem ttl_window:
  assumes "ensure_fresh E L cfg repo True body w = (Inr outcome, w1)" "outcome \<noteq> Cached"
    and "w_slots w2 (name repo) = w_slots w1 (name repo)" "head_exists (cache_dir repo) w2"
  shows "fst (ensure_fresh E L cfg repo True body2 w2) = Inr Cached \<longleftrightarrow>
    instant E w2 - instant E w < fetch_ttl cfg"
proof -
  have "slot_last (name repo) w1 = Some (instant E w)"
    using ensure_fresh_decision[OF assms(1)] assms(2) by (cases outcome) auto
  then have l: "slot_last (name repo) w2 = Some (instant E w)" using assms(3) by (simp add: slot_last_def)
  obtain r w3 where run: "ensure_fresh E L cfg repo True body2 w2 = (r, w3)" by force
  have due: "fetch_due E cfg (slot_last (name repo) w2) w2 \<longleftrightarrow> \<not> instant E w2 - instant E w < fetch_ttl cfg"
    unfolding l by (auto simp: fetch_due_def since_def)
  let ?w0 = "touch_index L (name repo) (slot (name repo) w2)"
  have w0: "head_exists (cache_dir repo) ?w0" "slot_last (name repo) ?w0 = slot_last (name repo) w2"
    using assms(4) by (simp_all add: head_exists_def slot_last_def slot_def[of _ w2])
  have due0: "fetch_due E cfg k ?w0 = fetch_due E cfg k w2" for k
    by (simp add: fetch_due_def since_def split: option.split)
  obtain r1 w4 where c: "refresh_mirror E L cfg repo True ?w0 = (r1, w4)" by force
  have "r = r1" using run c by (cases r1) (auto simp: ensure_fresh_def)
  moreover from c have "r1 = Inr Cached \<longleftrightarrow> \<not> fetch_due E cfg (slot_last (name repo) w2) w2"
    by (cases rule: refresh_cases) (auto simp: w0 due0)
  ultimately show ?thesis using run due by simp
qed

theorem ttl_window_witness:
  "let w1 = snd (ensure_fresh sample_env list_lru sample_cfg sample_repo True [] sample_world);
       w2 = w1\<lparr>w_tick := 49\<rparr>; w3 = w1\<lparr>w_tick := 50\<rparr>
   in fst (ensure_fresh sample_env list_lru sample_cfg sample_repo True [] w2) = Inr Cached \<and>
      fst (ensure_fresh sample_env list_lru sample_cfg sample_repo True [] w3) \<noteq> Inr Cached"
proof -
  let ?w1 = "snd (ensure_fresh sample_env list_lru sample_cfg sample_repo True [] sample_world)"
  have r: "fst (ensure_fresh sample_env list_lru sample_cfg sample_repo True [] sample_world) = Inr Cloned"
    by code_simp
  then have run: "ensure_fresh sample_env list_lru sample_cfg sample_repo True [] sample_world = (Inr Cloned, ?w1)"
    by (metis prod.collapse)
  have h: "head_exists (cache_dir sample_repo) ?w1" by code_simp
  have "fst (ensure_fresh sample_env list_lru sample_cfg sample_repo True [] (?w1\<lparr>w_tick := n\<rparr>)) = Inr Cached \<longleftrightarrow> n < 50" for n
    using ttl_window[OF run, of "?w1\<lparr>w_tick := n\<rparr>" "[]"] h
    by (simp add: head_exists_def instant_def sample_env_def sample_world_def sample_cfg_def)
  then show ?thesis unfolding Let_def by simp
qed

text \<open>C23: The proxy only reads from upstream, and the upstream credential is never an argument. Every process
  \<open>ensure_fresh\<close> starts is the configured \<open>git\<close> with one of six argument lists, none of which pushes and none
  of which depends on the configured header; only a clone or a fetch has it in its environment; a
  fetch of wanted objects names no more of them than the cap. Every metric recorded fits its family and
  carries the repository's name only for a success.\<close>

theorem ensure_fresh_read_only:
  "\<exists>es. w_trace (snd (ensure_fresh E L cfg repo want_fetch body w)) = w_trace w @ es \<and>
     list_all (read_only_event cfg repo) es"
  using events.ensure_fresh_frame[of E L cfg repo want_fetch body w, OF prod.collapse[symmetric]] mirror_event_read_only
  unfolding emits_def by (metis list.pred_mono_strong)

text \<open>C24: Eviction removes the mirror, and only it: after a successful eviction the mirror has no \<open>HEAD\<close>, so that
  the next request clones; a failed one has left the mirror as it was; in both cases nothing outside the
  mirror and its trash directory has changed.\<close>

theorem evict_removes_mirror:
  assumes "resolve n up root = Inr repo" "evict E n (cache_dir repo) w = (r, w')"
  shows "(r = Inr () \<longrightarrow> \<not> head_exists (cache_dir repo) w') \<and>
    (r \<noteq> Inr () \<longrightarrow> same_outside [components (trash_dir (cache_dir repo))] (w_fs w) (w_fs w')) \<and>
    same_outside [components (cache_dir repo), components (trash_dir (cache_dir repo))] (w_fs w) (w_fs w')"
proof (cases r)
  case (Inl e)
  then show ?thesis using evict_failed_keeps[OF assms(1)] evict_outside assms(2) by auto
next
  case (Inr u)
  then show ?thesis using evict_no_head[OF assms(1)] evict_outside assms(2) by auto
qed

theorem evict_removes_mirror_witness:
  "head_exists ''/c/g/r'' (sample_world\<lparr>w_fs := sample_fs\<rparr>) \<and>
   \<not> head_exists ''/c/g/r'' (snd (evict sample_env ''g/r'' ''/c/g/r'' (sample_world\<lparr>w_fs := sample_fs\<rparr>)))"
proof -
  let ?w = "sample_world\<lparr>w_fs := sample_fs\<rparr>"
  have "head_exists ''/c/g/r'' ?w" "fst (evict sample_env ''g/r'' ''/c/g/r'' ?w) = Inr ()" by code_simp+
  then show ?thesis
    using evict_removes_mirror[OF sample_resolve, of sample_env ?w, OF prod.collapse[symmetric]]
    by (simp add: sample_repo_def)
qed

text \<open>C38: The advertisement sent to the client is the service announcement and a flush packet, followed by
  exactly what \<open>git\<close> printed; when \<open>git\<close> fails, nothing is recorded as served.\<close>

theorem advertise_refs_body:
  "case advertise_refs E cfg repo proto w of
     (Inr body, w') \<Rightarrow> \<exists>out t. body = ''001e# service=git-upload-pack\<newline>0000'' @ stdout out \<and>
        w_trace w' = w_trace w @ Spawned (advertise_cmd cfg repo proto) out #
          map MetricCall (observe_serve ServeInfoRefs (name repo) t)
   | (Inl _, w') \<Rightarrow> list_all (\<lambda>e. case e of Spawned _ _ \<Rightarrow> True | _ \<Rightarrow> False) (drop (length (w_trace w)) (w_trace w'))"
proof -
  have hdr: "pkt_line ''# service=git-upload-pack\<newline>'' = ''001e# service=git-upload-pack\<newline>''" by code_simp
  obtain r w1 where run: "run_git E (advertise_cmd cfg repo proto) w = (r, w1)" by force
  show ?thesis
  proof (cases r)
    case (Inl e)
    then show ?thesis using run run_git_Inl[of E _ w e w1] by (simp add: advertise_refs_def io_context_def)
  next
    case (Inr out)
    then have "w_trace w1 = w_trace w @ [Spawned (advertise_cmd cfg repo proto) out]"
      using run run_git_Inr by blast
    then show ?thesis
      using run Inr by (auto simp: advertise_refs_def io_context_def hdr Let_def split: sum.splits)
  qed
qed

end
