(* ===== verification/Maintain.thy ===== *)
theory Maintain
  imports Freshness
begin

text \<open>
  The background task of \<^verbatim>\<open>src/src/evict.rs\<close>: one maintenance pass (\<open>maintain\<close>) and the loop around it
  (\<open>run\<close>). The lemmas show that a pass always ends, with every changed mirror measured and the total within
  the cap, and that no request to the task is lost while it waits.
\<close>

section \<open>One pass\<close>

fun measure_all :: "fs \<Rightarrow> (string \<times> string) list \<Rightarrow> (string \<times> u64) list" where
  "measure_all f [] = []"
| "measure_all f ((k, dir) # ds) = (k, fst (measure_tree f (components dir))) # measure_all f ds"

fun set_sizes ::
  "'l lru_ops \<Rightarrow> (string \<times> u64) list \<Rightarrow> 'l CacheIndex \<Rightarrow> 'l CacheIndex \<times> metric_call list" where
  "set_sizes L [] idx = (idx, [])"
| "set_sizes L ((k, sz) # ms) idx =
     (case set_size L k sz idx of
        (idx1, calls1) \<Rightarrow> (case set_sizes L ms idx1 of (idx2, calls2) \<Rightarrow> (idx2, calls1 @ calls2)))"

text \<open>Measuring what changed. The walk runs on the blocking pool; when it cannot be joined nothing is
  measured.\<close>

definition measure_dirty ::
  "('e) io_env_scheme \<Rightarrow> 'l lru_ops \<Rightarrow> 'l CacheIndex \<Rightarrow> ('l, 'z) cache_world_scheme \<Rightarrow>
     'l CacheIndex \<times> ('l, 'z) cache_world_scheme" where
  "measure_dirty E L idx w =
     (case take_dirty (hash_iter E) idx of
        (dirty, idx1) \<Rightarrow>
          if dirty = [] then (idx1, w)
          else
            let dirs = map (\<lambda>k. (k, index_cache_dir idx1 k)) dirty;
                measured = (if fault E (w_tick w) then [] else measure_all (w_fs w) dirs) in
            case set_sizes L measured idx1 of
              (idx2, calls) \<Rightarrow> (idx2, metric calls (w\<lparr>w_tick := Suc (w_tick w)\<rparr>)))"

definition evict_victim ::
  "('e) io_env_scheme \<Rightarrow> string \<times> string \<Rightarrow> ('l, 'z) cache_world_scheme \<Rightarrow> ('l, 'z) cache_world_scheme" where
  "evict_victim E victim w =
     (case victim of (k, dir) \<Rightarrow>
        case (if is_lfs_blob k then
                (case io_remove_file E dir w of
                   (Inr _, w1) \<Rightarrow> (Inr (), w1)
                 | (Inl NotFound, w1) \<Rightarrow> (Inr (), w1)
                 | (Inl e, w1) \<Rightarrow> (Inl (IoFail [] e), w1))
              else evict E k dir w) of
          (Inr _, w1) \<Rightarrow> metric record_eviction w1
        | (Inl _, w1) \<Rightarrow> w1)"

definition maintain ::
  "('e) io_env_scheme \<Rightarrow> 'l lru_ops \<Rightarrow> 'l CacheIndex \<Rightarrow> ('l, 'z) cache_world_scheme \<Rightarrow>
     ('l, 'z) cache_world_scheme option" where
  "maintain E L idx w =
     (case measure_dirty E L idx w of
        (idx1, w1) \<Rightarrow>
          (case take_victims L idx1 of
             None \<Rightarrow> None
           | Some (victims, idx2, calls) \<Rightarrow>
               Some (fold (evict_victim E) victims (metric calls (w1\<lparr>w_index := Some idx2\<rparr>)))))"

section \<open>The loop\<close>

text \<open>
  \<open>reconcile\<close> runs \<open>reconcile_missing\<close> on the index of a world. While the task waits, other tasks change
  the world; each element of the schedule says what they did until something became ready, and
  whether the shutdown signal or the reconcile interval is ready then. The \<open>select!\<close> is biased: shutdown
  first, then the interval, then the work permit, which it consumes (\<open>wake\<close>: one turn of the loop without shutdown). The
  result tells whether the task has stopped.
\<close>

definition reconcile ::
  "('e) io_env_scheme \<Rightarrow> 'l lru_ops \<Rightarrow> 'l CacheIndex \<Rightarrow> ('l, 'z) cache_world_scheme \<Rightarrow>
     ('l, 'z) cache_world_scheme" where
  "reconcile E L idx w =
     (case reconcile_missing L (w_fs w) (\<not> fault E (w_tick w)) idx of
        (idx', calls) \<Rightarrow> metric calls (w\<lparr>w_index := Some idx', w_tick := Suc (w_tick w)\<rparr>))"

definition wake ::
  "('e) io_env_scheme \<Rightarrow> 'l lru_ops \<Rightarrow> bool \<Rightarrow> ('l, 'z) cache_world_scheme \<Rightarrow> ('l, 'z) cache_world_scheme option" where
  "wake E L tick w =
     (case w_index w of
        None \<Rightarrow> Some w
      | Some idx \<Rightarrow>
          if tick then
            (let w1 = reconcile E L idx w in
             case w_index w1 of None \<Rightarrow> Some w1 | Some idx1 \<Rightarrow> maintain E L idx1 w1)
          else if ci_work idx then
            (let idx1 = idx\<lparr>ci_work := False\<rparr> in maintain E L idx1 (w\<lparr>w_index := Some idx1\<rparr>))
          else Some w)"

fun run_wait ::
  "('e) io_env_scheme \<Rightarrow> 'l lru_ops \<Rightarrow>
     ((('l, 'z) cache_world_scheme \<Rightarrow> ('l, 'z) cache_world_scheme) \<times> bool \<times> bool) list \<Rightarrow>
     ('l, 'z) cache_world_scheme \<Rightarrow> (bool \<times> ('l, 'z) cache_world_scheme) option" where
  "run_wait E L [] w = Some (False, w)"
| "run_wait E L ((others, shutdown, tick) # sched) w =
     (let w1 = others w in
      if shutdown then Some (True, w1)
      else (case wake E L tick w1 of None \<Rightarrow> None | Some w2 \<Rightarrow> run_wait E L sched w2))"

definition run ::
  "('e) io_env_scheme \<Rightarrow> 'l lru_ops \<Rightarrow>
     ((('l, 'z) cache_world_scheme \<Rightarrow> ('l, 'z) cache_world_scheme) \<times> bool \<times> bool) list \<Rightarrow>
     'l CacheIndex \<Rightarrow> ('l, 'z) cache_world_scheme \<Rightarrow> (bool \<times> ('l, 'z) cache_world_scheme) option" where
  "run E L sched idx w =
     (case maintain E L idx w of None \<Rightarrow> None | Some w1 \<Rightarrow> run_wait E L sched w1)"

section \<open>A pass ends in a quiet state\<close>

text \<open>The drain of a set yields each of its elements once.\<close>

definition hash_iter_ok :: "('e) io_env_scheme \<Rightarrow> string set \<Rightarrow> bool" where
  "hash_iter_ok E S \<longleftrightarrow> set (hash_iter E S) = S \<and> distinct (hash_iter E S)"

text \<open>Work for the background task: something to measure, or too much to keep.\<close>

definition pending :: "'l CacheIndex \<Rightarrow> bool" where
  "pending idx \<longleftrightarrow> in_dirty (ci_state idx) \<noteq> {} \<or> in_total (ci_state idx) > ci_max_bytes idx"

lemma metric_index [simp]: "w_index (metric ms w) = w_index w"
  by (simp add: metric_def emit_def)

lemma evict_index: "w_index (snd (evict E k dir w)) = w_index w"
proof -
  obtain r w' where e: "evict E k dir w = (r, w')" by force
  have s: "w_index (slot k w) = w_index w" by (simp add: slot_def)
  from e have "w_index w' = w_index w"
  proof (cases rule: evict_cases)
    case absent
    then show ?thesis by (simp add: s)
  next
    case (failed r2 w2 e)
    then show ?thesis using io_only_remove io_only_syscall io_only_cache s by metis
  next
    case (moved r2 w2 w3 r4)
    then show ?thesis using io_only_remove io_only_syscall io_only_cache s by metis
  qed
  then show ?thesis using e by simp
qed

lemma evict_victim_index [simp]: "w_index (evict_victim E v w) = w_index w"
proof -
  obtain k dir where v: "v = (k, dir)" by force
  have rm: "w_index u = w_index w" if "io_remove_file E dir w = (r, u)" for r u
    using that io_only_syscall io_only_cache by blast
  have ev: "w_index u = w_index w" if "evict E k dir w = (r, u)" for r u
    using that evict_index[of E k dir w] by simp
  show ?thesis
    by (auto simp: evict_victim_def v split: prod.splits sum.splits io_error.splits if_splits dest: rm ev)
qed

lemma fold_evict_index [simp]: "w_index (fold (evict_victim E) vs w) = w_index w"
  by (induction vs arbitrary: w) simp_all

lemma index_cache_dir_state: "index_cache_dir (idx\<lparr>ci_state := s\<rparr>) = index_cache_dir idx"
  by (simp add: fun_eq_iff index_cache_dir_def)

context lru_laws begin

lemma set_sizes_refines:
  assumes "index_ok L idx" "set_sizes L ms idx = (idx', calls)"
  shows "index_ok L idx' \<and> entries_of L idx' = fold (\<lambda>(k, sz). overwrite k sz) ms (entries_of L idx) \<and>
    ci_max_bytes idx' = ci_max_bytes idx \<and> ci_root idx' = ci_root idx \<and>
    in_dirty (ci_state idx') = in_dirty (ci_state idx)"
  using assms
proof (induction ms arbitrary: idx calls)
  case (Cons m ms)
  obtain k sz where m: "m = (k, sz)" by force
  obtain idx1 c1 where s: "set_size L k sz idx = (idx1, c1)" by force
  obtain c2 where t: "set_sizes L ms idx1 = (idx', c2)"
    using Cons.prems(2) m s by (cases "set_sizes L ms idx1") simp
  then show ?case
    using Cons.IH[OF set_size_refines(2)[OF Cons.prems(1) s] t] set_size_refines(1)[OF Cons.prems(1) s]
      set_size_frame[OF s] m by simp
qed simp

lemma measure_dirty_refines:
  assumes "index_ok L idx" "measure_dirty E L idx w = (idx', w')"
  shows "index_ok L idx' \<and> in_dirty (ci_state idx') = {} \<and> ci_max_bytes idx' = ci_max_bytes idx \<and>
    ci_root idx' = ci_root idx \<and> w_fs w' = w_fs w \<and>
    entries_of L idx' = (if fault E (w_tick w) then entries_of L idx
      else fold (\<lambda>(k, sz). overwrite k sz)
        (measure_all (w_fs w) (map (\<lambda>k. (k, index_cache_dir idx k)) (hash_iter E (in_dirty (ci_state idx)))))
        (entries_of L idx))"
proof -
  let ?idx1 = "idx\<lparr>ci_state := (ci_state idx)\<lparr>in_dirty := {}\<rparr>\<rparr>"
  let ?dirs = "map (\<lambda>k. (k, index_cache_dir idx k)) (hash_iter E (in_dirty (ci_state idx)))"
  let ?ms = "if fault E (w_tick w) then [] else measure_all (w_fs w) ?dirs"
  have ok: "index_ok L ?idx1" using assms(1) by (simp add: index_ok_def inner_ok_def)
  obtain idx2 calls where s: "set_sizes L ?ms ?idx1 = (idx2, calls)" by force
  show ?thesis
  proof (cases "hash_iter E (in_dirty (ci_state idx)) = []")
    case True
    then show ?thesis using assms(2) ok by (auto simp: measure_dirty_def take_dirty_def)
  next
    case False
    then have "measure_dirty E L idx w = (idx2, metric calls (w\<lparr>w_tick := Suc (w_tick w)\<rparr>))"
      unfolding measure_dirty_def take_dirty_def prod.case index_cache_dir_state Let_def s by simp
    then have "idx' = idx2" "w_fs w' = w_fs w" using assms(2) by simp_all
    then show ?thesis using set_sizes_refines[OF ok s] by simp
  qed
qed

lemma maintain_refines:
  assumes "index_ok L idx"
  shows "\<exists>w' idx1 idx' out. maintain E L idx w = Some w' \<and> w_index w' = Some idx' \<and>
    measure_dirty E L idx w = (idx1, snd (measure_dirty E L idx w)) \<and> index_ok L idx' \<and>
    entries_of L idx1 = entries_of L idx' @ out \<and> sizes (entries_of L idx') \<le> ci_max_bytes idx \<and>
    in_dirty (ci_state idx') = {} \<and> ci_max_bytes idx' = ci_max_bytes idx \<and> ci_root idx' = ci_root idx"
proof -
  obtain idx1 w1 where m: "measure_dirty E L idx w = (idx1, w1)" by force
  note r = measure_dirty_refines[OF assms m]
  then have ok: "index_ok L idx1" by simp
  obtain out :: "(string \<times> u64) list" and idx2 where v: "take_victims L idx1 =
      Some (map (\<lambda>(k, _). (k, index_cache_dir idx1 k)) (rev out), idx2, gauges_of (entries_of L idx2))"
    "index_ok L idx2" "entries_of L idx1 = entries_of L idx2 @ out" "sizes (entries_of L idx2) \<le> ci_max_bytes idx1"
    "ci_max_bytes idx2 = ci_max_bytes idx1" "ci_root idx2 = ci_root idx1"
    "in_dirty (ci_state idx2) = in_dirty (ci_state idx1)"
    using take_victims_refines[OF ok] by blast
  have "\<exists>w'. maintain E L idx w = Some w' \<and> w_index w' = Some idx2"
    using v(1) m by (simp add: maintain_def)
  then show ?thesis using v(2-) m r by auto
qed

lemma maintain_quiet:
  assumes "index_ok L idx"
  shows "\<exists>w' idx'. maintain E L idx w = Some w' \<and> w_index w' = Some idx' \<and> index_ok L idx' \<and> \<not> pending idx'"
  using maintain_refines[OF assms, of E w] by (auto simp: pending_def index_ok_def inner_ok_def)

end

section \<open>Measured sizes\<close>

lemma keys_measure_all [simp]: "keys (measure_all f ds) = map fst ds"
  by (induction f ds rule: measure_all.induct) simp_all

lemma map_of_measure_all:
  "map_of (measure_all f (map (\<lambda>k. (k, dir k)) ks)) k =
     (if k \<in> set ks then Some (fst (measure_tree f (components (dir k)))) else None)"
  by (induction ks) auto

lemma map_of_fold_overwrite:
  assumes "distinct (keys ms)"
  shows "map_of (fold (\<lambda>(k, sz). overwrite k sz) ms xs) k =
    (case map_of xs k of None \<Rightarrow> None | Some v \<Rightarrow> Some (case map_of ms k of None \<Rightarrow> v | Some sz \<Rightarrow> sz))"
  using assms
proof (induction ms arbitrary: xs)
  case (Cons m ms)
  obtain k' sz where m: "m = (k', sz)" by force
  have "map_of ms k' = None" using Cons.prems m by (simp add: map_of_eq_None_iff)
  then show ?case using Cons m by (auto simp: map_of_overwrite split: option.split)
qed (simp split: option.split)

text \<open>The size an entry has after the measurement of a pass.\<close>

definition measured_size ::
  "('e) io_env_scheme \<Rightarrow> 'l CacheIndex \<Rightarrow> ('l, 'z) cache_world_scheme \<Rightarrow> string \<Rightarrow> u64 \<Rightarrow> u64" where
  "measured_size E idx w k v =
     (if k \<in> in_dirty (ci_state idx) \<and> \<not> fault E (w_tick w)
      then fst (measure_tree (w_fs w) (components (index_cache_dir idx k))) else v)"

context lru_laws begin

lemma measure_dirty_sizes:
  assumes "index_ok L idx" "hash_iter_ok E (in_dirty (ci_state idx))" "measure_dirty E L idx w = (idx', w')"
  shows "map_of (entries_of L idx') k = map_option (measured_size E idx w k) (map_of (entries_of L idx) k)"
proof -
  let ?D = "hash_iter E (in_dirty (ci_state idx))"
  let ?ms = "measure_all (w_fs w) (map (\<lambda>k. (k, index_cache_dir idx k)) ?D)"
  have D: "set ?D = in_dirty (ci_state idx)" "distinct ?D" using assms(2) by (auto simp: hash_iter_ok_def)
  have "distinct (keys ?ms)" using D by (simp add: comp_def)
  note fo = map_of_fold_overwrite[OF this, of "entries_of L idx" k]
  have e: "entries_of L idx' = (if fault E (w_tick w) then entries_of L idx
      else fold (\<lambda>(k, sz). overwrite k sz) ?ms (entries_of L idx))"
    using measure_dirty_refines[OF assms(1,3)] by blast
  show ?thesis
  proof (cases "fault E (w_tick w)")
    case True
    then show ?thesis unfolding e by (cases "map_of (entries_of L idx) k") (simp_all add: measured_size_def)
  next
    case False
    then show ?thesis unfolding e using D(1)
      by (cases "map_of (entries_of L idx) k") (simp_all add: fo measured_size_def map_of_measure_all)
  qed
qed

end

section \<open>The task beside the requests\<close>

text \<open>
  The phases of the task, with what it holds in its local variables, and its critical sections
  interleaved with the operations that requests perform. What a walk measures and what a stat sweep
  finds missing is left open: the file system changes while they run.
\<close>

datatype task_phase =
    Starting
  | Walking "string list"
  | Sizing "(string \<times> u64) list"
  | Evicting "(string \<times> string) list"
  | Waiting
  | Reconciling "string list"
  | Stopped

fun is_request :: "index_op \<Rightarrow> bool" where
  "is_request (Touch k) = True"
| "is_request (RecordBlob k sz) = True"
| "is_request (MarkChanged k) = True"
| "is_request op = False"

inductive task_step :: "'l lru_ops \<Rightarrow> task_phase \<times> 'l CacheIndex \<Rightarrow> task_phase \<times> 'l CacheIndex \<Rightarrow> bool"
  for L :: "'l lru_ops" where
  request: "is_request op \<Longrightarrow> index_step L op idx = Some (idx', cs) \<Longrightarrow> task_step L (ph, idx) (ph, idx')"
| take: "take_dirty order idx = (ks, idx') \<Longrightarrow> task_step L (Starting, idx) (Walking ks, idx')"
| walked: "ms = [] \<or> keys ms = ks \<Longrightarrow> task_step L (Walking ks, idx) (Sizing ms, idx)"
| sized: "set_size L k sz idx = (idx', cs) \<Longrightarrow> task_step L (Sizing ((k, sz) # ms), idx) (Sizing ms, idx')"
| victims: "take_victims L idx = Some (vs, idx', cs) \<Longrightarrow> task_step L (Sizing [], idx) (Evicting vs, idx')"
| evicted: "task_step L (Evicting (v # vs), idx) (Evicting vs, idx)"
| wait: "task_step L (Evicting [], idx) (Waiting, idx)"
| work: "ci_work idx \<Longrightarrow> task_step L (Waiting, idx) (Starting, idx\<lparr>ci_work := False\<rparr>)"
| tick: "set ks \<subseteq> fst ` set (reconcile_tracked L idx) \<Longrightarrow> task_step L (Waiting, idx) (Reconciling ks, idx)"
| reconciled: "reconcile_apply L ks idx = (idx', cs) \<Longrightarrow> task_step L (Reconciling ks, idx) (Starting, idx')"
| stop: "task_step L (Waiting, idx) (Stopped, idx)"

inductive_cases task_stepE: "task_step L s s'"

text \<open>The invariant: what is to be measured or evicted is announced by a permit, unless the task is about
  to look at it anyway.\<close>

definition announced :: "'l lru_ops \<Rightarrow> task_phase \<times> 'l CacheIndex \<Rightarrow> bool" where
  "announced L s = (case s of (ph, idx) \<Rightarrow>
     index_ok L idx \<and>
     (in_dirty (ci_state idx) \<noteq> {} \<longrightarrow> ci_work idx \<or> ph = Starting) \<and>
     (in_total (ci_state idx) > ci_max_bytes idx \<longrightarrow>
        ci_work idx \<or> ph = Starting \<or> (\<exists>ks. ph = Walking ks) \<or> (\<exists>ms. ph = Sizing ms)))"

context lru_laws begin

lemma announced_request:
  assumes "announced L (ph, idx)" "is_request op" "index_step L op idx = Some (idx', cs)"
  shows "announced L (ph, idx')"
proof -
  have ok: "index_ok L idx" using assms(1) by (simp add: announced_def)
  then have ok': "index_ok L idx'" using index_step_refines[of idx op] assms(3) by auto
  show ?thesis
  proof (cases op)
    case (Touch k)
    then have t: "idx' = touch L k idx" using assms(3) by simp
    have "sizes (entries_of L idx') = sizes (entries_of L idx)"
      using touch_refines(1)[OF ok, of k] ok t by (simp add: index_ok_def inner_ok_def sizes_promote)
    then have "in_total (ci_state idx') = in_total (ci_state idx)"
      using ok ok' by (simp add: index_ok_def inner_ok_def)
    then show ?thesis using assms(1) ok' by (simp add: announced_def t touch_def)
  next
    case (RecordBlob k sz)
    then show ?thesis using record_blob_refines(4)[OF ok, of k sz idx' cs] assms(3) ok' by (simp add: announced_def)
  next
    case (MarkChanged k)
    then show ?thesis using mark_changed_refines(4)[OF ok, of k idx' cs] assms(3) ok' by (simp add: announced_def)
  qed (use assms(2) in simp_all)
qed

lemma announced_step:
  assumes "task_step L s s'" "announced L s"
  shows "announced L s'"
  using assms(1)
proof cases
  case (request op idx idx' cs ph)
  then show ?thesis using announced_request assms(2) by simp
next
  case (take order idx ks idx')
  then show ?thesis using assms(2) by (auto simp: take_dirty_def announced_def index_ok_def inner_ok_def)
next
  case (sized k sz idx idx' cs ms)
  then have "index_ok L idx" using assms(2) by (simp add: announced_def)
  moreover have "ci_work idx' = ci_work idx"
    using sized(3) by (auto simp: set_size_def Let_def split: option.splits)
  ultimately show ?thesis
    using sized assms(2) set_size_refines(2) set_size_frame[OF sized(3)] by (auto simp: announced_def)
next
  case (victims idx vs idx' cs)
  then have ok: "index_ok L idx" using assms(2) by (simp add: announced_def)
  have "ci_work idx' = ci_work idx"
    using victims(3) by (auto simp: take_victims_def Let_def split: option.splits prod.splits)
  moreover have "index_ok L idx' \<and> sizes (entries_of L idx') \<le> ci_max_bytes idx' \<and>
      in_dirty (ci_state idx') = in_dirty (ci_state idx)"
    using take_victims_refines[OF ok] victims(3) by auto
  ultimately show ?thesis
    using victims assms(2) by (auto simp: announced_def index_ok_def inner_ok_def)
next
  case (reconciled ks idx idx' cs)
  then have "index_ok L idx'" using assms(2) reconcile_apply_refines(2) by (auto simp: announced_def)
  then show ?thesis using reconciled by (simp add: announced_def)
qed (use assms(2) in \<open>auto simp: announced_def index_ok_def inner_ok_def\<close>)

lemma announced_reachable:
  assumes "(task_step L)\<^sup>*\<^sup>* s s'" "announced L s"
  shows "announced L s'"
  using assms by (induction rule: rtranclp_induct) (auto intro: announced_step)

text \<open>A pass alone is a run of these steps.\<close>

lemma set_sizes_steps:
  "set_sizes L ms idx = (idx', cs) \<Longrightarrow> (task_step L)\<^sup>*\<^sup>* (Sizing ms, idx) (Sizing [], idx')"
proof (induction ms arbitrary: idx cs)
  case (Cons m ms)
  obtain k sz where m: "m = (k, sz)" by force
  obtain idx1 c1 where s: "set_size L k sz idx = (idx1, c1)" by force
  obtain c2 where t: "set_sizes L ms idx1 = (idx', c2)"
    using Cons.prems m s by (cases "set_sizes L ms idx1") simp
  show ?case unfolding m using converse_rtranclp_into_rtranclp[OF sized[OF s] Cons.IH[OF t]] .
qed simp

lemma evicting_steps: "(task_step L)\<^sup>*\<^sup>* (Evicting vs, idx) (Waiting, idx)"
  by (induction vs) (auto intro: evicted wait converse_rtranclp_into_rtranclp)

lemma measure_dirty_steps:
  assumes "measure_dirty E L idx w = (idx', w')"
  shows "(task_step L)\<^sup>*\<^sup>* (Starting, idx) (Sizing [], idx')"
proof -
  let ?ks = "hash_iter E (in_dirty (ci_state idx))"
  let ?idx1 = "idx\<lparr>ci_state := (ci_state idx)\<lparr>in_dirty := {}\<rparr>\<rparr>"
  let ?dirs = "map (\<lambda>k. (k, index_cache_dir idx k)) ?ks"
  let ?ms = "if fault E (w_tick w) then [] else measure_all (w_fs w) ?dirs"
  obtain idx2 calls where s: "set_sizes L ?ms ?idx1 = (idx2, calls)" by force
  have d: "task_step L (Starting, idx) (Walking ?ks, ?idx1)"
    by (rule take[of "hash_iter E"]) (simp add: take_dirty_def)
  have m: "task_step L (Walking ?ks, ?idx1) (Sizing ?ms, ?idx1)" by (rule walked) (simp add: comp_def)
  have "idx' = idx2"
  proof (cases "?ks = []")
    case True
    then show ?thesis using assms s by (auto simp: measure_dirty_def take_dirty_def split: if_splits)
  next
    case False
    then have "measure_dirty E L idx w = (idx2, metric calls (w\<lparr>w_tick := Suc (w_tick w)\<rparr>))"
      unfolding measure_dirty_def take_dirty_def prod.case index_cache_dir_state Let_def s by simp
    then show ?thesis using assms by simp
  qed
  then show ?thesis
    using converse_rtranclp_into_rtranclp[OF d converse_rtranclp_into_rtranclp[OF m set_sizes_steps[OF s]]]
    by simp
qed

lemma maintain_steps:
  assumes "maintain E L idx w = Some w'" "w_index w' = Some idx'"
  shows "(task_step L)\<^sup>*\<^sup>* (Starting, idx) (Waiting, idx')"
proof -
  obtain idx1 w1 where m: "measure_dirty E L idx w = (idx1, w1)" by force
  obtain vs idx2 cs where v: "take_victims L idx1 = Some (vs, idx2, cs)" "idx' = idx2"
    using assms m by (auto simp: maintain_def split: option.splits)
  from measure_dirty_steps[OF m] victims[OF v(1)] evicting_steps show ?thesis
    unfolding v(2) by (meson rtranclp.rtrancl_into_rtrancl rtranclp_trans)
qed

end

section \<open>The loop serves every wake-up\<close>

definition calm :: "'l lru_ops \<Rightarrow> 'l CacheIndex \<Rightarrow> bool" where
  "calm L idx \<longleftrightarrow> index_ok L idx \<and> (pending idx \<longrightarrow> ci_work idx)"

text \<open>What the other tasks may do while this one waits: anything that leaves the index calm, as every
  operation of a request does.\<close>

definition rely :: "'l lru_ops \<Rightarrow> (('l, 'z) cache_world_scheme \<Rightarrow> ('l, 'z) cache_world_scheme) \<Rightarrow> bool" where
  "rely L others \<longleftrightarrow> (\<forall>w idx. w_index w = Some idx \<longrightarrow> calm L idx \<longrightarrow>
     (\<exists>idx'. w_index (others w) = Some idx' \<and> calm L idx'))"

lemma relyD:
  "rely L others \<Longrightarrow> w_index w = Some idx \<Longrightarrow> calm L idx \<Longrightarrow> \<exists>idx'. w_index (others w) = Some idx' \<and> calm L idx'"
  by (simp add: rely_def)

context lru_laws begin

lemma calm_announced: "calm L idx \<longleftrightarrow> announced L (Waiting, idx)"
  by (auto simp: calm_def announced_def pending_def)

lemma request_calm:
  assumes "is_request op" "calm L idx"
  shows "\<exists>idx' cs. index_step L op idx = Some (idx', cs) \<and> calm L idx'"
proof -
  have "index_ok L idx" using assms(2) by (simp add: calm_def)
  then obtain idx' cs where s: "index_step L op idx = Some (idx', cs)"
    using index_step_refines[of idx op] by blast
  then show ?thesis using announced_request[OF _ assms(1) s, of Waiting] assms(2) unfolding calm_announced by blast
qed

lemma reconcile_ok:
  assumes "index_ok L idx"
  shows "\<exists>idx'. w_index (reconcile E L idx w) = Some idx' \<and> index_ok L idx'"
proof -
  obtain idx' cs where r: "reconcile_missing L (w_fs w) (\<not> fault E (w_tick w)) idx = (idx', cs)" by force
  then have "index_ok L idx'"
    using assms reconcile_apply_refines(2)
    by (auto simp: reconcile_missing_def Let_def split: if_splits)
  then show ?thesis using r by (simp add: reconcile_def)
qed

lemma wake_quiet:
  assumes "w_index w = Some idx" "calm L idx"
  shows "\<exists>w' idx'. wake E L tick w = Some w' \<and> w_index w' = Some idx' \<and> calm L idx' \<and> \<not> pending idx'"
proof -
  have ok: "index_ok L idx" using assms(2) by (simp add: calm_def)
  have pass: "\<exists>w' idx'. maintain E L i u = Some w' \<and> w_index w' = Some idx' \<and> calm L idx' \<and> \<not> pending idx'"
    if "index_ok L i" for i u using maintain_quiet[OF that, of E u] by (auto simp: calm_def)
  obtain idx1 where r: "w_index (reconcile E L idx w) = Some idx1" "index_ok L idx1" using reconcile_ok[OF ok] by blast
  have k: "index_ok L (idx\<lparr>ci_work := False\<rparr>)" using ok by (simp add: index_ok_def)
  show ?thesis
    using assms pass[OF r(2)] pass[OF k] r(1) by (auto simp: wake_def Let_def calm_def)
qed

lemma run_wait_calm:
  assumes "w_index w = Some idx" "calm L idx" "\<forall>(others, _) \<in> set sched. rely L others"
    "sched \<noteq> [] \<or> \<not> pending idx"
  shows "\<exists>b w' idx'. run_wait E L sched w = Some (b, w') \<and> w_index w' = Some idx' \<and> calm L idx' \<and>
    (b \<longleftrightarrow> (\<exists>(_, shutdown, _) \<in> set sched. shutdown)) \<and> (b \<or> \<not> pending idx')"
  using assms
proof (induction sched arbitrary: w idx)
  case (Cons s sched)
  obtain others shutdown tick where s: "s = (others, shutdown, tick)" by (cases s) auto
  have "rely L others" using Cons.prems(3) s by simp
  then obtain idx1 where o: "w_index (others w) = Some idx1" "calm L idx1"
    using Cons.prems(1,2) relyD by blast
  obtain w2 idx2 where k: "wake E L tick (others w) = Some w2" "w_index w2 = Some idx2" "calm L idx2" "\<not> pending idx2"
    using wake_quiet[OF o] by blast
  have rest: "\<forall>(others, _) \<in> set sched. rely L others" using Cons.prems(3) by simp
  show ?case
  proof (cases shutdown)
    case True
    then show ?thesis using o s by (intro exI[of _ True] exI[of _ "others w"]) simp
  next
    case False
    then show ?thesis using s k Cons.IH[OF k(2,3) rest] by simp
  qed
qed auto

lemma run_quiet:
  assumes "index_ok L idx" "list_all (\<lambda>(others, _). rely L others) sched"
  shows "\<exists>stopped w' idx'. run E L sched idx w = Some (stopped, w') \<and> w_index w' = Some idx' \<and> index_ok L idx' \<and>
    (stopped \<longleftrightarrow> list_ex (\<lambda>(_, shutdown, _). shutdown) sched) \<and> (stopped \<or> \<not> pending idx')"
proof -
  obtain w1 idx1 where m: "maintain E L idx w = Some w1" "w_index w1 = Some idx1" "index_ok L idx1" "\<not> pending idx1"
    using maintain_quiet[OF assms(1)] by blast
  then have "calm L idx1" by (simp add: calm_def)
  moreover have "\<forall>(others, _) \<in> set sched. rely L others" using assms(2) by (simp add: list_all_iff)
  ultimately obtain b w' idx' where "run_wait E L sched w1 = Some (b, w')" "w_index w' = Some idx'" "calm L idx'"
    "b \<longleftrightarrow> (\<exists>(_, shutdown, _) \<in> set sched. shutdown)" "b \<or> \<not> pending idx'"
    using run_wait_calm[OF m(2), of sched E] m(4) by blast
  then show ?thesis
    by (intro exI[of _ b] exI[of _ w'] exI[of _ idx']) (simp add: run_def m(1) calm_def list_ex_iff)
qed

end

text \<open>What every turn and every other task preserves holds when the loop ends.\<close>

lemma run_wait_invariant:
  assumes "run_wait E L sched w = Some (b, w')" "I w" "\<forall>(others, _) \<in> set sched. \<forall>u. I u \<longrightarrow> I (others u)"
    "\<And>tick u u'. I u \<Longrightarrow> wake E L tick u = Some u' \<Longrightarrow> I u'"
  shows "I w'"
  using assms(1-3)
proof (induction sched arbitrary: w)
  case (Cons s sched)
  obtain others shutdown tick where s: "s = (others, shutdown, tick)" by (cases s) auto
  have "I (others w)" using Cons.prems(2,3) s by auto
  then show ?case
    using Cons.prems(1,3) Cons.IH assms(4) s by (auto simp: Let_def split: if_splits option.splits)
qed simp

section \<open>Examples for the witnesses\<close>

definition dirty_index :: "(string \<times> u64) list CacheIndex" where
  "dirty_index = \<lparr>ci_root = ''/c'', ci_max_bytes = 10, ci_work = True,
     ci_state = \<lparr>in_cache = [(''g/r'', 0), (''b'', 9)], in_dirty = {''g/r''}, in_total = 9\<rparr>\<rparr>"

lemma dirty_index_ok: "index_ok list_lru dirty_index"
  by (simp add: index_ok_def inner_ok_def list_lru_def dirty_index_def)

definition drain_env :: io_env where
  "drain_env = sample_env\<lparr>hash_iter := \<lambda>_. [''g/r'']\<rparr>"

definition notified_index :: "(string \<times> u64) list CacheIndex" where
  "notified_index = fst (mark_changed list_lru ''c'' sample_index)"

lemma notified_run: "(task_step list_lru)\<^sup>*\<^sup>* (Starting, sample_index) (Waiting, notified_index)"
proof -
  let ?cs = "snd (mark_changed list_lru ''c'' sample_index)"
  have t: "take_dirty (\<lambda>_. []) sample_index = ([], sample_index)"
    by (simp add: take_dirty_def sample_index_def)
  obtain cs where v: "take_victims list_lru sample_index = Some ([], sample_index, cs)"
    by (simp add: take_victims_def take_victims_loop.simps sample_index_def Let_def)
  have r: "index_step list_lru (MarkChanged ''c'') sample_index = Some (notified_index, ?cs)"
    by (simp add: notified_index_def)
  show ?thesis
    using take[OF t, of list_lru] walked[of "[]" "[]" list_lru sample_index, OF disjI1[OF refl]] victims[OF v]
      request[OF _ r, of "Evicting []"] wait[of list_lru notified_index]
    by (auto intro: converse_rtranclp_into_rtranclp)
qed

section \<open>Properties\<close>

text \<open>C15: A maintenance pass does its work. From any consistent index it ends; afterwards nothing is left to
  measure, the running total is the sum of the sizes of the entries and within the cap, and every entry
  kept has the size just measured on disk if it was marked as changed, else the size it had.\<close>

theorem maintain_quiesces:
  assumes "lru_laws L" "index_ok L idx" "hash_iter_ok E (in_dirty (ci_state idx))"
  shows "\<exists>w' idx'. maintain E L idx w = Some w' \<and> w_index w' = Some idx' \<and> in_dirty (ci_state idx') = {} \<and>
    in_total (ci_state idx') = sizes (entries_of L idx') \<and> in_total (ci_state idx') \<le> ci_max_bytes idx \<and>
    (\<forall>k. map_of (entries_of L idx') k \<in>
       {None, map_option (measured_size E idx w k) (map_of (entries_of L idx) k)})"
proof -
  obtain w' idx1 idx' out where m: "maintain E L idx w = Some w'" "w_index w' = Some idx'"
    "measure_dirty E L idx w = (idx1, snd (measure_dirty E L idx w))" "index_ok L idx'"
    "entries_of L idx1 = entries_of L idx' @ out" "sizes (entries_of L idx') \<le> ci_max_bytes idx"
    "in_dirty (ci_state idx') = {}"
    using lru_laws.maintain_refines[OF assms(1,2), of E w] by blast
  have "map_of (entries_of L idx') k \<in> {None, map_of (entries_of L idx1) k}" for k
    unfolding m(5) by (cases "map_of (entries_of L idx') k") auto
  then show ?thesis
    using m(1,2,4,6,7) lru_laws.measure_dirty_sizes[OF assms m(3)] by (simp add: index_ok_def inner_ok_def)
qed

theorem maintain_quiesces_witness:
  "let w = sample_world\<lparr>w_fs := sample_fs\<rparr> in
   \<exists>w' idx'. maintain drain_env list_lru dirty_index w = Some w' \<and> w_index w' = Some idx' \<and>
     in_dirty (ci_state idx') = {} \<and> in_total (ci_state idx') \<le> 10 \<and>
     map_of (entries_of list_lru idx') ''g/r'' \<in> {None, Some (measured_size drain_env dirty_index w ''g/r'' 0)}"
proof -
  have h: "hash_iter_ok drain_env (in_dirty (ci_state dirty_index))"
    by (simp add: hash_iter_ok_def drain_env_def dirty_index_def)
  have "map_of (entries_of list_lru dirty_index) ''g/r'' = Some 0" "ci_max_bytes dirty_index = 10"
    by (simp_all add: dirty_index_def list_lru_def)
  then show ?thesis
    using maintain_quiesces[OF list_lru.lru_laws_axioms dirty_index_ok h, of "sample_world\<lparr>w_fs := sample_fs\<rparr>"]
    unfolding Let_def by (metis option.simps(9))
qed

text \<open>C13: No wake-up is lost. Whatever operations requests perform between the critical sections of the
  background task, in whatever phase it is, the index stays consistent; and whenever the task waits while
  there is something to measure or too much to keep, a permit is stored, so that it can go on at once.\<close>

theorem no_lost_work:
  assumes "lru_laws L" "index_ok L idx" "(task_step L)\<^sup>*\<^sup>* (Starting, idx) (ph, idx')"
  shows "index_ok L idx' \<and> (ph = Waiting \<longrightarrow> pending idx' \<longrightarrow>
    task_step L (ph, idx') (Starting, idx'\<lparr>ci_work := False\<rparr>))"
proof -
  have "announced L (Starting, idx)" using assms(2) by (simp add: announced_def)
  then have a: "announced L (ph, idx')" using lru_laws.announced_reachable[OF assms(1,3)] by blast
  then show ?thesis by (auto simp: announced_def pending_def intro: task_step.work)
qed

theorem no_lost_work_witness:
  "pending notified_index \<and> task_step list_lru (Waiting, notified_index) (Starting, notified_index\<lparr>ci_work := False\<rparr>)"
proof -
  have "pending notified_index"
    by (simp add: pending_def notified_index_def mark_changed_def notify_one_def Let_def split: prod.split)
  then show ?thesis
    using no_lost_work[OF list_lru.lru_laws_axioms sample_index_ok notified_run] by blast
qed

end
