(* ===== verification/Json.thy ===== *)
theory Json
  imports Prelude
begin

text \<open>
  The values of the package \<open>serde_json\<close> as far as the program uses them: \<open>Value\<close> with its accessors, and its
  map, which is ordered by key (the program does not enable \<open>preserve_order\<close>). Parsing and printing stay with
  the package and are parameters of the definitions that use them.
\<close>

datatype number = PosInt u64 | NegInt int | FloatBits "64 word"

datatype json =
    JNull
  | JBool bool
  | JNumber number
  | JString string
  | JArray "json list"
  | JObject "(string \<times> json) list"

text \<open>\<open>Value::get\<close> and \<open>get_mut\<close> by key, and the \<open>as_\<close> accessors.\<close>

fun jget :: "string \<Rightarrow> json \<Rightarrow> json option" where
  "jget k (JObject kvs) = map_of kvs k"
| "jget k _ = None"

fun as_str :: "json \<Rightarrow> string option" where
  "as_str (JString s) = Some s"
| "as_str _ = None"

fun as_u64 :: "json \<Rightarrow> u64 option" where
  "as_u64 (JNumber (PosInt n)) = Some n"
| "as_u64 _ = None"

fun as_array :: "json \<Rightarrow> json list option" where
  "as_array (JArray vs) = Some vs"
| "as_array _ = None"

fun as_object :: "json \<Rightarrow> (string \<times> json) list option" where
  "as_object (JObject kvs) = Some kvs"
| "as_object _ = None"

text \<open>The map: strings are ordered by their bytes.\<close>

fun str_less :: "string \<Rightarrow> string \<Rightarrow> bool" where
  "str_less s [] = False"
| "str_less [] (c # t) = True"
| "str_less (b # s) (c # t) =
     ((of_char b :: nat) < of_char c \<or> b = c \<and> str_less s t)"

fun obj_insert :: "string \<Rightarrow> json \<Rightarrow> (string \<times> json) list \<Rightarrow> (string \<times> json) list" where
  "obj_insert k v [] = [(k, v)]"
| "obj_insert k v ((k', v') # kvs) =
     (if k' = k then (k, v) # kvs
      else if str_less k k' then (k, v) # (k', v') # kvs
      else (k', v') # obj_insert k v kvs)"

definition obj_remove :: "string \<Rightarrow> (string \<times> json) list \<Rightarrow> (string \<times> json) list" where
  "obj_remove k kvs = filter (\<lambda>(k', _). k' \<noteq> k) kvs"

definition obj_of :: "(string \<times> json) list \<Rightarrow> json" where
  "obj_of kvs = JObject (fold (\<lambda>(k, v). obj_insert k v) kvs [])"

text \<open>Writing through a \<open>get_mut\<close>: the value under a key that is there is replaced.\<close>

fun jset :: "string \<Rightarrow> json \<Rightarrow> json \<Rightarrow> json" where
  "jset k v (JObject kvs) = JObject (obj_insert k v kvs)"
| "jset k v j = j"

lemma map_of_obj_insert [simp]: "map_of (obj_insert k v kvs) = (map_of kvs)(k \<mapsto> v)"
  by (induction k v kvs rule: obj_insert.induct) (auto simp: fun_eq_iff)

lemma map_of_obj_remove [simp]: "map_of (obj_remove k kvs) = (map_of kvs)(k := None)"
  by (induction kvs) (auto simp: obj_remove_def fun_eq_iff)

lemma jget_jset: "jget k' (jset k v j) = (case j of JObject _ \<Rightarrow> if k' = k then Some v else jget k' j | _ \<Rightarrow> None)"
  by (cases j) auto

lemma jget_Some: "jget k j = Some v \<Longrightarrow> \<exists>kvs. j = JObject kvs \<and> map_of kvs k = Some v"
  by (cases j) auto

lemma as_object_Some: "as_object j = Some kvs \<longleftrightarrow> j = JObject kvs"
  by (cases j) auto

lemma as_array_Some: "as_array j = Some vs \<longleftrightarrow> j = JArray vs"
  by (cases j) auto

lemma as_str_Some: "as_str j = Some s \<longleftrightarrow> j = JString s"
  by (cases j) auto

lemmas json_accessors = as_object_Some as_array_Some as_str_Some

end
