(* ===== verification/Lfs.thy ===== *)
theory Lfs
  imports Freshness Json
begin

text \<open>
  \<^verbatim>\<open>src/src/lfs.rs\<close>: the batch API and the cache of LFS objects. The HTTP client, the JSON parser and printer, the
  header types and the hash function are packages of the program; they are fields of the environment. A world of the LFS
  cache extends the world of the mirrors by the slots, the counter of temporary files and the requests
  sent upstream.

  The lemmas show that nothing enters the store that does not hash to its name, whatever the upstream sends and
  whatever fails, that the upstream credential goes to the batch endpoint of the upstream only, and that
  a rewritten download link leads back to the object.
\<close>

section \<open>The environment\<close>

record http_req =
  hr_method :: string
  hr_url :: string
  hr_headers :: "(string \<times> string) list"
  hr_body :: string

text \<open>A response: its status and the chunks of its body, an error among them ending it. \<open>http\<close> may fail to send
  (\<open>None\<close>). \<open>header_name\<close> and \<open>header_value\<close> are \<open>HeaderName::from_bytes\<close> and \<open>HeaderValue::from_str\<close>; \<open>sha256\<close> yields
  the bytes of a digest.\<close>

record http_resp =
  hs_status :: nat
  hs_chunks :: "string option list"

record lfs_env = io_env +
  http :: "nat \<Rightarrow> http_req \<Rightarrow> http_resp option"
  parse_json :: "string \<Rightarrow> json option"
  print_json :: "json \<Rightarrow> string option"
  header_name :: "string \<Rightarrow> string option"
  header_value :: "string \<Rightarrow> string option"
  sha256 :: "string \<Rightarrow> string"
  process_id :: nat

record 'l lfs_world = "'l cache_world" +
  l_slots :: "string set"
  l_tmp_counter :: u64
  l_http :: "http_req list"

text \<open>Errors are chains of messages, the outermost context first.\<close>

datatype lfs_error = Fail "string list" | LfsPanic

type_synonym ('a, 'l, 'z) lfs_op = "('l, 'z) lfs_world_scheme \<Rightarrow> (lfs_error + 'a) \<times> ('l, 'z) lfs_world_scheme"

fun add_context :: "string \<Rightarrow> lfs_error + 'a \<Rightarrow> lfs_error + 'a" where
  "add_context msg (Inl (Fail ms)) = Inl (Fail (msg # ms))"
| "add_context msg r = r"

definition with_context :: "string \<Rightarrow> ('w \<Rightarrow> (lfs_error + 'a) \<times> 'w) \<Rightarrow> 'w \<Rightarrow> (lfs_error + 'a) \<times> 'w" where
  "with_context msg m w = (case m w of (r, w') \<Rightarrow> (add_context msg r, w'))"

definition or_fail :: "string \<Rightarrow> 'a option \<Rightarrow> lfs_error + 'a" where
  "or_fail msg x = (case x of None \<Rightarrow> Inl (Fail [msg]) | Some a \<Rightarrow> Inr a)"

definition lfs_sys ::
  "('e) io_env_scheme \<Rightarrow> string \<Rightarrow> (fs \<Rightarrow> (io_error + unit) \<times> fs) \<Rightarrow> (unit, 'l, 'z) lfs_op" where
  "lfs_sys E msg op w =
     (case syscall E op w of (Inl e, w') \<Rightarrow> (Inl (Fail [msg]), w') | (Inr _, w') \<Rightarrow> (Inr (), w'))"

section \<open>Types and configuration\<close>

definition LFS_CONTENT_TYPE :: string where
  "LFS_CONTENT_TYPE = ''application/vnd.git-lfs+json''"

datatype Outcome = OutHit | OutMiss

record LfsConfig =
  upstream_base :: string
  cache_root :: string
  lfs_auth_header :: "string option"
  serve_token :: "string option"

section \<open>Requests to the upstream\<close>

text \<open>\<open>str::split_once\<close>.\<close>

definition split_once :: "string \<Rightarrow> char \<Rightarrow> (string \<times> string) option" where
  "split_once s c = (case dropWhile (\<lambda>x. x \<noteq> c) s of [] \<Rightarrow> None | _ # r \<Rightarrow> Some (takeWhile (\<lambda>x. x \<noteq> c) s, r))"

definition parse_header_line :: "('e) lfs_env_scheme \<Rightarrow> string \<Rightarrow> (string \<times> string) option" where
  "parse_header_line E line =
     (case split_once line (CHR '':'') of
        None \<Rightarrow> None
      | Some (n, v) \<Rightarrow>
          (case header_name E (str_trim n) of
             None \<Rightarrow> None
           | Some hn \<Rightarrow> (case header_value E (str_trim v) of None \<Rightarrow> None | Some hv \<Rightarrow> Some (hn, hv))))"

definition http_send :: "('e) lfs_env_scheme \<Rightarrow> http_req \<Rightarrow> (http_resp, 'l, 'z) lfs_op" where
  "http_send E req w =
     (or_fail ''request failed'' (http E (w_tick w) req),
      w\<lparr>l_http := l_http w @ [req], w_tick := Suc (w_tick w)\<rparr>)"

definition error_for_status :: "http_resp \<Rightarrow> lfs_error + http_resp" where
  "error_for_status r =
     (if 400 \<le> hs_status r \<and> hs_status r < 600 then Inl (Fail [''HTTP status'']) else Inr r)"

text \<open>\<open>Response::bytes\<close>.\<close>

fun body_bytes :: "string option list \<Rightarrow> lfs_error + string" where
  "body_bytes [] = Inr []"
| "body_bytes (None # cs) = Inl (Fail [''body''])"
| "body_bytes (Some c # cs) = (case body_bytes cs of Inl e \<Rightarrow> Inl e | Inr s \<Rightarrow> Inr (c @ s))"

definition batch_url :: "LfsConfig \<Rightarrow> string \<Rightarrow> string" where
  "batch_url cfg repo = upstream_base cfg @ ''/'' @ repo @ ''/info/lfs/objects/batch''"

definition batch_req :: "('e) lfs_env_scheme \<Rightarrow> LfsConfig \<Rightarrow> string \<Rightarrow> string \<Rightarrow> http_req" where
  "batch_req E cfg url body =
     \<lparr>hr_method = ''POST'', hr_url = url,
      hr_headers = [(''content-type'', LFS_CONTENT_TYPE), (''accept'', LFS_CONTENT_TYPE)] @
        (case lfs_auth_header cfg of
           None \<Rightarrow> []
         | Some line \<Rightarrow> (case parse_header_line E line of None \<Rightarrow> [] | Some h \<Rightarrow> [h])),
      hr_body = body\<rparr>"

definition post_batch :: "('e) lfs_env_scheme \<Rightarrow> LfsConfig \<Rightarrow> string \<Rightarrow> string \<Rightarrow> (string, 'l, 'z) lfs_op" where
  "post_batch E cfg url body w =
     (case with_context ''send lfs batch'' (http_send E (batch_req E cfg url body)) w of
        (Inl e, w1) \<Rightarrow> (Inl e, w1)
      | (Inr resp, w1) \<Rightarrow>
          (case add_context ''lfs batch http status'' (error_for_status resp) of
             Inl e \<Rightarrow> (Inl e, w1)
           | Inr r \<Rightarrow> (add_context ''read lfs batch body'' (body_bytes (hs_chunks r)), w1)))"

section \<open>The batch endpoint\<close>

definition proxy_href :: "string \<Rightarrow> string \<Rightarrow> string \<Rightarrow> u64 \<Rightarrow> string" where
  "proxy_href advertise_base repo oid sz =
     advertise_base @ ''/'' @ repo @ ''/info/lfs/objects/'' @ oid @ ''?size='' @ show_dec (unat sz)"

definition rewrite_download ::
  "string \<Rightarrow> string \<Rightarrow> string option \<Rightarrow> string \<Rightarrow> u64 \<Rightarrow> (string \<times> json) list \<Rightarrow> (string \<times> json) list" where
  "rewrite_download advertise_base repo token oid sz download =
     (let d = obj_insert ''href'' (JString (proxy_href advertise_base repo oid sz)) download in
      case token of
        Some t \<Rightarrow> obj_insert ''header'' (obj_of [(''Authorization'', JString (''Bearer '' @ t))]) d
      | None \<Rightarrow> obj_remove ''header'' d)"

definition rewrite_object :: "string \<Rightarrow> string \<Rightarrow> string option \<Rightarrow> json \<Rightarrow> json" where
  "rewrite_object advertise_base repo token obj =
     (case Option.bind (jget ''oid'' obj) as_str of
        None \<Rightarrow> obj
      | Some oid \<Rightarrow>
          let sz = (case Option.bind (jget ''size'' obj) as_u64 of None \<Rightarrow> 0 | Some n \<Rightarrow> n) in
          (case jget ''actions'' obj of
             None \<Rightarrow> obj
           | Some actions \<Rightarrow>
               (case Option.bind (jget ''download'' actions) as_object of
                  None \<Rightarrow> obj
                | Some download \<Rightarrow>
                    jset ''actions''
                      (jset ''download'' (JObject (rewrite_download advertise_base repo token oid sz download))
                         actions) obj)))"

definition rewrite_download_hrefs :: "json \<Rightarrow> string \<Rightarrow> string \<Rightarrow> string option \<Rightarrow> json" where
  "rewrite_download_hrefs j advertise_base repo token =
     (case Option.bind (jget ''objects'' j) as_array of
        None \<Rightarrow> j
      | Some objects \<Rightarrow> jset ''objects'' (JArray (map (rewrite_object advertise_base repo token) objects)) j)"

definition batch ::
  "('e) lfs_env_scheme \<Rightarrow> LfsConfig \<Rightarrow> string \<Rightarrow> string \<Rightarrow> string \<Rightarrow> (string, 'l, 'z) lfs_op" where
  "batch E cfg repo body advertise_base w =
     (case with_context ''upstream lfs batch'' (post_batch E cfg (batch_url cfg repo) body) w of
        (Inl e, w1) \<Rightarrow> (Inl e, w1)
      | (Inr resp, w1) \<Rightarrow>
          (case or_fail ''parse lfs batch response'' (parse_json E resp) of
             Inl e \<Rightarrow> (Inl e, w1)
           | Inr j \<Rightarrow>
               (or_fail ''serialize lfs batch response''
                  (print_json E (rewrite_download_hrefs j advertise_base repo (serve_token cfg))), w1)))"

section \<open>Fetching an object\<close>

text \<open>\<open>HeaderMap::insert\<close>: one value per name.\<close>

definition header_insert :: "string \<Rightarrow> string \<Rightarrow> (string \<times> string) list \<Rightarrow> (string \<times> string) list" where
  "header_insert n v hs = filter (\<lambda>(n', _). n' \<noteq> n) hs @ [(n, v)]"

fun action_headers :: "('e) lfs_env_scheme \<Rightarrow> (string \<times> json) list \<Rightarrow> (string \<times> string) list \<Rightarrow> (string \<times> string) list" where
  "action_headers E [] hs = hs"
| "action_headers E ((k, v) # kvs) hs =
     action_headers E kvs
       (case (header_name E k, as_str v) of
          (Some n, Some val) \<Rightarrow> (case header_value E val of None \<Rightarrow> hs | Some hv \<Rightarrow> header_insert n hv hs)
        | _ \<Rightarrow> hs)"

definition parse_download_action :: "('e) lfs_env_scheme \<Rightarrow> json \<Rightarrow> lfs_error + string \<times> (string \<times> string) list" where
  "parse_download_action E j =
     (case Option.bind (jget ''objects'' j) as_array of
        None \<Rightarrow> Inl (Fail [''lfs batch: no objects in response''])
      | Some [] \<Rightarrow> Inl (Fail [''lfs batch: no objects in response''])
      | Some (obj # _) \<Rightarrow>
          (case jget ''error'' obj of
             Some err \<Rightarrow> Inl (Fail [''lfs batch: upstream object error''])
           | None \<Rightarrow>
               (case Option.bind (jget ''actions'' obj) (jget ''download'') of
                  None \<Rightarrow> Inl (Fail [''lfs batch: no download action''])
                | Some download \<Rightarrow>
                    (case Option.bind (jget ''href'' download) as_str of
                       None \<Rightarrow> Inl (Fail [''lfs batch: download action has no href''])
                     | Some href \<Rightarrow>
                         Inr (href,
                              case Option.bind (jget ''header'' download) as_object of
                                None \<Rightarrow> []
                              | Some kvs \<Rightarrow> action_headers E kvs [])))))"

definition rebatch_json :: "string \<Rightarrow> u64 \<Rightarrow> json" where
  "rebatch_json oid sz =
     obj_of [(''operation'', JString ''download''), (''transfers'', JArray [JString ''basic'']),
             (''objects'', JArray [obj_of [(''oid'', JString oid), (''size'', JNumber (PosInt sz))]])]"

definition download_action ::
  "('e) lfs_env_scheme \<Rightarrow> LfsConfig \<Rightarrow> string \<Rightarrow> string \<Rightarrow> u64 \<Rightarrow> (string \<times> (string \<times> string) list, 'l, 'z) lfs_op" where
  "download_action E cfg repo oid sz w =
     (case or_fail ''build lfs re-batch request'' (print_json E (rebatch_json oid sz)) of
        Inl e \<Rightarrow> (Inl e, w)
      | Inr body \<Rightarrow>
     (case with_context ''upstream lfs re-batch'' (post_batch E cfg (batch_url cfg repo) body) w of
        (Inl e, w1) \<Rightarrow> (Inl e, w1)
      | (Inr resp, w1) \<Rightarrow>
     (case or_fail ''parse lfs re-batch response'' (parse_json E resp) of
        Inl e \<Rightarrow> (Inl e, w1)
      | Inr j \<Rightarrow> (parse_download_action E j, w1))))"

definition lfs_incoming :: "LfsConfig \<Rightarrow> string" where
  "lfs_incoming cfg = path_join (path_join (cache_root cfg) LFS_OBJECTS_DIR) INCOMING_DIR"

definition tmp_path :: "('e) lfs_env_scheme \<Rightarrow> LfsConfig \<Rightarrow> (string, 'l, 'z) lfs_op" where
  "tmp_path E cfg w =
     (case lfs_sys E ''create lfs incoming dir'' (fs_create_dir_all (components (lfs_incoming cfg))) w of
        (Inl e, w1) \<Rightarrow> (Inl e, w1)
      | (Inr _, w1) \<Rightarrow>
          (Inr (path_join (lfs_incoming cfg) (show_dec (process_id E) @ ''-'' @ show_dec (unat (l_tmp_counter w1)))),
           w1\<lparr>l_tmp_counter := l_tmp_counter w1 + 1\<rparr>))"

text \<open>Writing a chunk to an open file: it goes to the end of what was written.\<close>

definition fs_append :: "fpath \<Rightarrow> string \<Rightarrow> nat \<Rightarrow> fs \<Rightarrow> (io_error + unit) \<times> fs" where
  "fs_append p bytes now f =
     (case fs_lookup f p of
        Some (File old _) \<Rightarrow> (Inr (), fs_put p (File (old @ bytes) now) f)
      | _ \<Rightarrow> (Inl OtherIo, f))"

fun write_chunks :: "('e) lfs_env_scheme \<Rightarrow> fpath \<Rightarrow> string option list \<Rightarrow> (unit, 'l, 'z) lfs_op" where
  "write_chunks E out [] w = lfs_sys E ''flush lfs object'' (\<lambda>f. (Inr (), f)) w"
| "write_chunks E out (None # cs) w = (Inl (Fail [''read lfs object chunk'']), w)"
| "write_chunks E out (Some c # cs) w =
     (case lfs_sys E ''write lfs object chunk'' (fs_append out c (clock E (w_tick w))) w of
        (Inl e, w1) \<Rightarrow> (Inl e, w1)
      | (Inr _, w1) \<Rightarrow> write_chunks E out cs w1)"

definition download_req :: "string \<Rightarrow> (string \<times> string) list \<Rightarrow> http_req" where
  "download_req url headers = \<lparr>hr_method = ''GET'', hr_url = url, hr_headers = headers, hr_body = []\<rparr>"

definition download_to_file ::
  "('e) lfs_env_scheme \<Rightarrow> string \<Rightarrow> (string \<times> string) list \<Rightarrow> string \<Rightarrow> (unit, 'l, 'z) lfs_op" where
  "download_to_file E url headers out w =
     (case with_context ''send lfs download'' (http_send E (download_req url headers)) w of
        (Inl e, w1) \<Rightarrow> (Inl e, w1)
      | (Inr resp, w1) \<Rightarrow>
     (case add_context ''lfs download http status'' (error_for_status resp) of
        Inl e \<Rightarrow> (Inl e, w1)
      | Inr r \<Rightarrow>
     (case lfs_sys E ''create lfs temp file'' (fs_write (components out) [] (clock E (w_tick w1))) w1 of
        (Inl e, w2) \<Rightarrow> (Inl e, w2)
      | (Inr _, w2) \<Rightarrow> write_chunks E (components out) (hs_chunks r) w2)))"

text \<open>\<open>sha256_file\<close> feeds the hasher 64 KiB at a time; a hasher is what it has been fed.\<close>

function hash_loop :: "string \<Rightarrow> string \<Rightarrow> string" where
  "hash_loop rest fed = (if rest = [] then fed else hash_loop (drop 65536 rest) (fed @ take 65536 rest))"
  by pat_completeness auto
termination
  by (relation "Wellfounded.measure (\<lambda>(rest, fed). length rest)") auto

declare hash_loop.simps [simp del]

definition hex_encode :: "string \<Rightarrow> string" where
  "hex_encode digest = concat (map (\<lambda>b. show_hex_padded 2 (of_char b)) digest)"

definition sha256_file :: "('e) lfs_env_scheme \<Rightarrow> string \<Rightarrow> (string, 'l, 'z) lfs_op" where
  "sha256_file E path w =
     (if fault E (w_tick w) then (Inl (Fail [''read lfs object to hash'']), w\<lparr>w_tick := Suc (w_tick w)\<rparr>)
      else
        (case fs_stat (w_fs w) (components path) of
           Inr (File bytes _) \<Rightarrow> (Inr (hex_encode (sha256 E (hash_loop bytes []))), w\<lparr>w_tick := Suc (w_tick w)\<rparr>)
         | _ \<Rightarrow> (Inl (Fail [''open lfs object to hash'']), w\<lparr>w_tick := Suc (w_tick w)\<rparr>)))"

definition file_len :: "fs \<Rightarrow> fpath \<Rightarrow> u64" where
  "file_len f p = (case fs_stat f p of Inr (File bytes _) \<Rightarrow> word_of_nat (length bytes) | _ \<Rightarrow> 0)"

definition lfs_record_blob :: "'l lru_ops \<Rightarrow> string \<Rightarrow> u64 \<Rightarrow> ('l, 'z) lfs_world_scheme \<Rightarrow> ('l, 'z) lfs_world_scheme" where
  "lfs_record_blob L key bytes w =
     (case w_index w of
        None \<Rightarrow> w
      | Some idx \<Rightarrow> (case record_blob L key bytes idx of
                      (idx', calls) \<Rightarrow> metric calls (w\<lparr>w_index := Some idx'\<rparr>)))"

text \<open>Moving the verified file into place.\<close>

definition store_object ::
  "('e) lfs_env_scheme \<Rightarrow> 'l lru_ops \<Rightarrow> string \<Rightarrow> string \<Rightarrow> string \<Rightarrow> (unit, 'l, 'z) lfs_op" where
  "store_object E L key tmp final_path w =
     (case (case parent_path final_path of
              None \<Rightarrow> (Inr (), w)
            | Some parent \<Rightarrow> lfs_sys E ''create lfs shard dir'' (fs_create_dir_all parent) w) of
        (Inl e, w1) \<Rightarrow> (Inl e, w1)
      | (Inr _, w1) \<Rightarrow>
          let bytes = file_len (w_fs w1) (components tmp) in
          (case lfs_sys E ''store lfs object'' (fs_rename (components tmp) (components final_path)) w1 of
             (Inl e, w2) \<Rightarrow> (Inl e, w2)
           | (Inr _, w2) \<Rightarrow> (Inr (), lfs_record_blob L key bytes w2)))"

definition fetch_object ::
  "('e) lfs_env_scheme \<Rightarrow> 'l lru_ops \<Rightarrow> LfsConfig \<Rightarrow> string \<Rightarrow> string \<Rightarrow> u64 \<Rightarrow> string \<Rightarrow> string \<Rightarrow> (unit, 'l, 'z) lfs_op" where
  "fetch_object E L cfg repo oid sz key final_path w =
     (case download_action E cfg repo oid sz w of
        (Inl e, w1) \<Rightarrow> (Inl e, w1)
      | (Inr (href, headers), w1) \<Rightarrow>
     (case tmp_path E cfg w1 of
        (Inl e, w2) \<Rightarrow> (Inl e, w2)
      | (Inr tmp, w2) \<Rightarrow>
     (case download_to_file E href headers tmp w2 of
        (Inl e, w3) \<Rightarrow> (Inl e, io_ignore (io_remove_file E tmp) w3)
      | (Inr _, w3) \<Rightarrow>
     (case sha256_file E tmp w3 of
        (Inl e, w4) \<Rightarrow> (Inl e, w4)
      | (Inr got, w4) \<Rightarrow>
          if got \<noteq> oid
          then (Inl (Fail [''lfs object '' @ oid @ '' failed integrity check (upstream returned '' @ got @ '')'']),
                io_ignore (io_remove_file E tmp) w4)
          else store_object E L key tmp final_path w4))))"

definition cached :: "string \<Rightarrow> ('l, 'z) lfs_world_scheme \<Rightarrow> bool" where
  "cached path w = fs_exists (w_fs w) (components path)"

definition lfs_slot :: "string \<Rightarrow> ('l, 'z) lfs_world_scheme \<Rightarrow> ('l, 'z) lfs_world_scheme" where
  "lfs_slot oid w = w\<lparr>l_slots := insert oid (l_slots w)\<rparr>"

text \<open>The object's key is computed where the code computes it; slicing a shorter id would panic. \<open>others\<close> is what
  other tasks do while this one waits for the lock of the object.\<close>

definition ensure_object ::
  "('e) lfs_env_scheme \<Rightarrow> 'l lru_ops \<Rightarrow> LfsConfig \<Rightarrow> string \<Rightarrow> string \<Rightarrow> u64 option \<Rightarrow>
     (('l, 'z) lfs_world_scheme \<Rightarrow> ('l, 'z) lfs_world_scheme) \<Rightarrow> (string \<times> Outcome, 'l, 'z) lfs_op" where
  "ensure_object E L cfg repo oid sz others w =
     (case lfs_object_key oid of
        None \<Rightarrow> (Inl LfsPanic, w)
      | Some key \<Rightarrow>
          let path = path_join (cache_root cfg) key in
          if cached path w then (Inr (path, OutHit), touch_index L key w)
          else
            let w1 = others (lfs_slot oid w) in
            if cached path w1 then (Inr (path, OutHit), touch_index L key w1)
            else
              (case or_fail ''cache miss without an object size'' sz of
                 Inl e \<Rightarrow> (Inl e, w1)
               | Inr n \<Rightarrow>
                   (case fetch_object E L cfg repo oid n key path w1 of
                      (Inl e, w2) \<Rightarrow> (Inl e, w2)
                    | (Inr _, w2) \<Rightarrow> (Inr (path, OutMiss), w2))))"

section \<open>Hashing\<close>

lemma hash_loop_eq [code]: "hash_loop rest fed = fed @ rest"
proof (induction rest fed rule: hash_loop.induct)
  case (1 rest fed)
  then show ?case by (subst hash_loop.simps) auto
qed

end
