(* ===== verification/LfsStore.thy ===== *)
theory LfsStore
  imports Lfs
begin

text \<open>
  The object store of \<^verbatim>\<open>src/src/lfs.rs\<close>: what its operations change and send. The locale \<open>lfs_frame\<close> follows a fetch up to
  the rename that puts the object in place, for any relation between file systems that does not see
  temporary files; it is interpreted once for the objects of the store and once for what lies outside the
  cache root.
\<close>

section \<open>Paths of the store\<close>

definition object_path :: "LfsConfig \<Rightarrow> string \<Rightarrow> fpath" where
  "object_path cfg oid = components (cache_root cfg) @ map Normal [LFS_OBJECTS_DIR, take 2 oid, oid]"

definition tmp_name :: "string \<Rightarrow> bool" where
  "tmp_name t \<longleftrightarrow> plain_name t \<and> CHR ''/'' \<notin> set t"

definition tmp_comps :: "LfsConfig \<Rightarrow> string \<Rightarrow> fpath" where
  "tmp_comps cfg t = components (cache_root cfg) @ map Normal [LFS_OBJECTS_DIR, INCOMING_DIR, t]"

lemma plain_nameI: "n \<noteq> [] \<Longrightarrow> CHR ''/'' \<notin> set n \<Longrightarrow> n \<noteq> ''.'' \<Longrightarrow> n \<noteq> ''..'' \<Longrightarrow> plain_name n"
  by (simp add: plain_name_def split_on_no_sep)

lemma components_join_one:
  "plain_name n \<Longrightarrow> CHR ''/'' \<notin> set n \<Longrightarrow> components (path_join p n) = components p @ [Normal n]"
  by (simp add: components_join split_on_no_sep)

lemma components_incoming:
  "components (lfs_incoming cfg) = components (cache_root cfg) @ map Normal [LFS_OBJECTS_DIR, INCOMING_DIR]"
proof -
  have "plain_name LFS_OBJECTS_DIR" "CHR ''/'' \<notin> set LFS_OBJECTS_DIR" "plain_name INCOMING_DIR" "CHR ''/'' \<notin> set INCOMING_DIR"
    by (auto intro!: plain_nameI simp: LFS_OBJECTS_DIR_def INCOMING_DIR_def)
  then show ?thesis by (simp add: lfs_incoming_def components_join_one)
qed

lemma components_tmp: "tmp_name t \<Longrightarrow> components (path_join (lfs_incoming cfg) t) = tmp_comps cfg t"
  by (simp add: components_join_one components_incoming tmp_name_def tmp_comps_def)

lemma object_path_inject: "object_path cfg oid = object_path cfg oid' \<longleftrightarrow> oid = oid'"
  by (auto simp: object_path_def)

lemma object_not_tmp:
  assumes "valid_lfs_oid oid"
  shows "object_path cfg oid \<noteq> tmp_comps cfg t" "\<not> prefix (tmp_comps cfg t) (object_path cfg oid)"
    "\<not> prefix (object_path cfg oid) (tmp_comps cfg t)"
proof -
  have "length (take 2 oid) \<noteq> length INCOMING_DIR" by (simp add: INCOMING_DIR_def)
  then have "take 2 oid \<noteq> INCOMING_DIR" by metis
  then show "object_path cfg oid \<noteq> tmp_comps cfg t" "\<not> prefix (tmp_comps cfg t) (object_path cfg oid)"
    "\<not> prefix (object_path cfg oid) (tmp_comps cfg t)"
    by (simp_all add: object_path_def tmp_comps_def)
qed

lemma object_key_path:
  assumes "valid_lfs_oid oid" "lfs_object_key oid = Some key"
  shows "components (path_join (cache_root cfg) key) = object_path cfg oid"
  using components_lfs_object_path[OF assms(1), of "cache_root cfg"] assms(2)
  by (simp add: lfs_object_path_def object_path_def)

lemma show_dec_chars: "c \<in> set (show_dec n) \<Longrightarrow> \<exists>d<10. digit_val c = Some d"
  using show_radix_digits[of 10 c n] digit_char_digit by (auto simp: show_dec_def)

lemma show_dec_no_slash: "CHR ''/'' \<notin> set (show_dec n)"
  using show_dec_chars[of "CHR ''/''" n] by (auto simp: digit_val_def)

lemma tmp_name_made: "tmp_name (show_dec p @ ''-'' @ show_dec n)"
proof -
  let ?t = "show_dec p @ ''-'' @ show_dec n"
  have in_t: "CHR ''-'' \<in> set ?t" and no_slash: "CHR ''/'' \<notin> set ?t" using show_dec_no_slash by auto
  have "CHR ''-'' \<notin> set x" if "x \<in> {[], ''.'', ''..''}" for x using that by auto
  then have "?t \<notin> {[], ''.'', ''..''}" using in_t by blast
  then have "plain_name ?t" using no_slash by (intro plain_nameI) blast+
  then show ?thesis using no_slash by (simp add: tmp_name_def)
qed

section \<open>Steps and the files they change\<close>

lemma lfs_sys_cases:
  assumes "lfs_sys E msg op w = (r, w')"
  obtains (ok) "r = Inr ()" "op (w_fs w) = (Inr (), w_fs w')" "l_http w' = l_http w"
  | (failed) e x where "r = Inl e" "w_fs w' = w_fs w \<or> op (w_fs w) = (x, w_fs w')" "l_http w' = l_http w"
proof -
  obtain r0 w0 where s: "syscall E op w = (r0, w0)" by force
  have h: "l_http w0 = l_http w" using s by (auto simp: syscall_def split: if_splits prod.splits)
  show ?thesis
  proof (cases r0)
    case (Inl e)
    then have "r = Inl (Fail [msg])" "w' = w0" using assms s by (simp_all add: lfs_sys_def)
    then show ?thesis using failed[of "Fail [msg]" r0] h s
      by (auto simp: syscall_def split: if_splits prod.splits)
  next
    case (Inr u)
    then have "r = Inr ()" "w' = w0" using assms s by (simp_all add: lfs_sys_def)
    then show ?thesis using ok h s Inr by (auto simp: syscall_def split: if_splits prod.splits)
  qed
qed

lemma post_batch_frame:
  assumes "post_batch E cfg url body w = (r, w')"
  shows "w_fs w' = w_fs w \<and> l_http w' = l_http w @ [batch_req E cfg url body]"
  using assms
  by (auto simp: post_batch_def with_context_def http_send_def split: prod.splits sum.splits)

lemma download_action_cases:
  assumes "download_action E cfg repo oid sz w = (r, w')"
  shows "w_fs w' = w_fs w \<and>
    (\<exists>body. l_http w' = l_http w \<or> l_http w' = l_http w @ [batch_req E cfg (batch_url cfg repo) body]) \<and>
    (\<forall>a. r = Inr a \<longrightarrow> (\<exists>resp j. parse_json E resp = Some j \<and> parse_download_action E j = Inr a))"
proof (cases "print_json E (rebatch_json oid sz)")
  case None
  then show ?thesis using assms by (auto simp: download_action_def or_fail_def)
next
  case (Some body)
  obtain r1 w1 where p: "post_batch E cfg (batch_url cfg repo) body w = (r1, w1)" by force
  note f = post_batch_frame[OF p]
  have "w' = w1 \<and> (\<forall>a. r = Inr a \<longrightarrow> (\<exists>resp j. parse_json E resp = Some j \<and> parse_download_action E j = Inr a))"
    using assms Some p by (auto simp: download_action_def or_fail_def with_context_def split: sum.splits option.splits)
  then show ?thesis using f by blast
qed

lemma sha256_file_cases:
  assumes "sha256_file E path w = (r, w')"
  shows "w_fs w' = w_fs w \<and> l_http w' = l_http w \<and>
    (\<forall>got. r = Inr got \<longrightarrow> (\<exists>b t. fs_lookup (w_fs w) (components path) = Some (File b t) \<and>
       got = hex_encode (sha256 E b)))"
proof (cases "fault E (w_tick w)")
  case True
  then show ?thesis using assms by (auto simp: sha256_file_def)
next
  case False
  then show ?thesis
    using assms
    by (auto simp: sha256_file_def fs_stat_def hash_loop_eq split: sum.splits node.splits if_splits option.splits)
qed

lemma lfs_record_blob_frame [simp]:
  "w_fs (lfs_record_blob L key n w) = w_fs w" "l_http (lfs_record_blob L key n w) = l_http w"
  by (auto simp: lfs_record_blob_def metric_def emit_def split: option.splits prod.splits)

text \<open>The requests of one fetch: a batch request for the object, and a download of what its response names.\<close>

definition upstream_req :: "('e) lfs_env_scheme \<Rightarrow> LfsConfig \<Rightarrow> string \<Rightarrow> http_req \<Rightarrow> bool" where
  "upstream_req E cfg repo r \<longleftrightarrow>
     (\<exists>body. r = batch_req E cfg (batch_url cfg repo) body) \<or>
     (\<exists>resp j href headers. parse_json E resp = Some j \<and> parse_download_action E j = Inr (href, headers) \<and>
        r = download_req href headers)"

lemma upstream_req_batch [simp]: "upstream_req E cfg repo (batch_req E cfg (batch_url cfg repo) body)"
  unfolding upstream_req_def by blast

definition sends :: "('e) lfs_env_scheme \<Rightarrow> LfsConfig \<Rightarrow> string \<Rightarrow> http_req list \<Rightarrow> http_req list \<Rightarrow> bool" where
  "sends E cfg repo before after \<longleftrightarrow>
     (\<exists>reqs. after = before @ reqs \<and> length reqs \<le> 2 \<and> list_all (upstream_req E cfg repo) reqs)"

lemma sends_refl [simp]: "sends E cfg repo rs rs"
  by (auto simp: sends_def)

lemma create_keeps_file:
  "fs_create_dir_all p f = (r, f') \<Longrightarrow> fs_lookup f q = Some n \<Longrightarrow> fs_lookup f' q = Some n"
  using fs_create_dirs_mono[of _ f r f' q] by (auto simp: fs_create_dir_all_def)

text \<open>The steps up to the rename change no files but temporary ones. A relation between file systems that
  is kept by such changes is kept by the operations that perform them.\<close>

locale lfs_frame =
  fixes cfg :: LfsConfig and R :: "fs \<Rightarrow> fs \<Rightarrow> bool"
  assumes R_refl: "R f f"
    and R_trans: "R f g \<Longrightarrow> R g h \<Longrightarrow> R f h"
    and R_create: "fs_create_dir_all p f = (r, f') \<Longrightarrow> R f f'"
    and R_put: "R f (fs_put (tmp_comps cfg t) n f)"
    and R_remove: "fs_remove_file (tmp_comps cfg t) f = (r, f') \<Longrightarrow> R f f'"
begin

lemma R_write: "fs_write (tmp_comps cfg t) b now f = (r, f') \<Longrightarrow> R f f'"
  by (auto simp: fs_write_def R_put R_refl split: if_splits)

lemma R_append: "fs_append (tmp_comps cfg t) b now f = (r, f') \<Longrightarrow> R f f'"
  by (auto simp: fs_append_def R_put R_refl split: option.splits node.splits)

lemma sys_frame:
  assumes "lfs_sys E msg op w = (r, w')" "\<And>x f'. op (w_fs w) = (x, f') \<Longrightarrow> R (w_fs w) f'"
  shows "R (w_fs w) (w_fs w') \<and> l_http w' = l_http w"
  using assms(1) by (cases rule: lfs_sys_cases) (use assms(2) R_refl in auto)

lemma write_chunks_frame:
  assumes "write_chunks E (tmp_comps cfg t) cs w = (r, w')"
  shows "R (w_fs w) (w_fs w') \<and> l_http w' = l_http w"
  using assms
proof (induction E "tmp_comps cfg t" cs w rule: write_chunks.induct)
  case (1 E w)
  then show ?case using sys_frame[of E "''flush lfs object''" "\<lambda>f. (Inr (), f)" w r w'] R_refl by simp
next
  case (2 E cs w)
  then show ?case using R_refl by simp
next
  case (3 E c cs w)
  obtain r1 w1 where a: "lfs_sys E ''write lfs object chunk'' (fs_append (tmp_comps cfg t) c (clock E (w_tick w))) w = (r1, w1)"
    by force
  note f = sys_frame[OF a R_append]
  show ?case
  proof (cases r1)
    case (Inl e)
    then show ?thesis using 3(2) a f by simp
  next
    case (Inr u)
    then have "write_chunks E (tmp_comps cfg t) cs w1 = (r, w')" using 3(2) a by simp
    then show ?thesis using 3(1)[OF a[symmetric] Inr] f R_trans by fastforce
  qed
qed

lemma tmp_path_frame:
  assumes "tmp_path E cfg w = (r, w')"
  shows "R (w_fs w) (w_fs w') \<and> l_http w' = l_http w \<and>
    (\<forall>tmp. r = Inr tmp \<longrightarrow> (\<exists>t. components tmp = tmp_comps cfg t))"
proof -
  obtain r1 w1 where s: "lfs_sys E ''create lfs incoming dir'' (fs_create_dir_all (components (lfs_incoming cfg))) w = (r1, w1)"
    by force
  note f = sys_frame[OF s R_create]
  show ?thesis
  proof (cases r1)
    case (Inl e)
    then show ?thesis using assms s f by (auto simp: tmp_path_def)
  next
    case (Inr u)
    then have "r = Inr (path_join (lfs_incoming cfg) (show_dec (process_id E) @ ''-'' @ show_dec (unat (l_tmp_counter w1))))"
      "w' = w1\<lparr>l_tmp_counter := l_tmp_counter w1 + 1\<rparr>" using assms s by (simp_all add: tmp_path_def)
    then show ?thesis using f components_tmp[OF tmp_name_made] by auto
  qed
qed

lemma download_to_file_frame:
  assumes "download_to_file E url headers out w = (r, w')" "components out = tmp_comps cfg t"
  shows "R (w_fs w) (w_fs w') \<and> l_http w' = l_http w @ [download_req url headers]"
proof -
  obtain r1 w1 where h: "http_send E (download_req url headers) w = (r1, w1)" by force
  then have f1: "w_fs w1 = w_fs w" "l_http w1 = l_http w @ [download_req url headers]"
    by (auto simp: http_send_def)
  show ?thesis
  proof (cases r1)
    case (Inl e)
    then have "w' = w1" using assms(1) h by (cases e) (simp_all add: download_to_file_def with_context_def)
    then show ?thesis using f1 R_refl by simp
  next
    case (Inr resp)
    obtain r2 w2 where c: "lfs_sys E ''create lfs temp file'' (fs_write (tmp_comps cfg t) [] (clock E (w_tick w1))) w1 = (r2, w2)"
      by force
    note f2 = sys_frame[OF c R_write]
    consider "w' = w1" | "w' = w2" | "write_chunks E (tmp_comps cfg t) (hs_chunks resp) w2 = (r, w')"
      using assms(1) h Inr c
      by (auto simp: download_to_file_def with_context_def assms(2) error_for_status_def split: if_splits sum.splits)
    then show ?thesis
    proof cases
      case 3
      from write_chunks_frame[OF this] show ?thesis using f1 f2 R_trans by fastforce
    qed (use f1 f2 R_refl in simp_all)
  qed
qed

lemma remove_tmp_frame:
  fixes w :: "('l, 'z) lfs_world_scheme"
  assumes "components tmp = tmp_comps cfg t"
  shows "R (w_fs w) (w_fs (io_ignore (io_remove_file E tmp) w)) \<and>
    l_http (io_ignore (io_remove_file E tmp) w) = l_http w"
proof -
  obtain r w' where s: "io_remove_file E tmp w = (r, w')" by force
  then have "l_http w' = l_http w" "w_fs w' = w_fs w \<or> fs_remove_file (tmp_comps cfg t) (w_fs w) = (r, w_fs w')"
    by (auto simp: syscall_def assms split: if_splits prod.splits)
  then show ?thesis using s R_remove R_refl by (auto simp: io_ignore_def)
qed

text \<open>The last step: the shard directory is created and the file renamed, or nothing of importance happens.\<close>

lemma store_object_cases:
  assumes "store_object E L key tmp final_path w = (r, w')"
  obtains (kept) e where "r = Inl e" "R (w_fs w) (w_fs w')" "l_http w' = l_http w"
  | (renamed) f1 where "r = Inr ()" "R (w_fs w) f1" "l_http w' = l_http w"
      "\<And>q n. fs_lookup (w_fs w) q = Some n \<Longrightarrow> fs_lookup f1 q = Some n"
      "fs_rename (components tmp) (components final_path) f1 = (Inr (), w_fs w')"
proof -
  let ?parent = "case parent_path final_path of None \<Rightarrow> (Inr (), w)
    | Some parent \<Rightarrow> lfs_sys E ''create lfs shard dir'' (fs_create_dir_all parent) w"
  obtain r1 w1 where p: "?parent = (r1, w1)" by force
  have f1: "R (w_fs w) (w_fs w1) \<and> l_http w1 = l_http w"
  proof (cases "parent_path final_path")
    case (Some q)
    then show ?thesis using p sys_frame[of E _ "fs_create_dir_all q" w r1 w1] R_create by simp
  qed (use p R_refl in simp)
  show ?thesis
  proof (cases r1)
    case (Inl e)
    then have "r = Inl e" "w' = w1" using assms p by (simp_all add: store_object_def)
    then show ?thesis using kept f1 by blast
  next
    case (Inr u)
    have keep: "fs_lookup (w_fs w1) q = Some n" if "fs_lookup (w_fs w) q = Some n" for q n
    proof (cases "parent_path final_path")
      case (Some d)
      then have "lfs_sys E ''create lfs shard dir'' (fs_create_dir_all d) w = (Inr u, w1)" using p Inr by simp
      then have "fs_create_dir_all d (w_fs w) = (Inr (), w_fs w1)" by (cases rule: lfs_sys_cases) auto
      then show ?thesis using create_keeps_file that by blast
    qed (use p that in simp)
    obtain r2 w2 where s: "lfs_sys E ''store lfs object'' (fs_rename (components tmp) (components final_path)) w1 = (r2, w2)"
      by force
    have w': "w' = (case r2 of Inl _ \<Rightarrow> w2 | Inr _ \<Rightarrow> lfs_record_blob L key (file_len (w_fs w1) (components tmp)) w2)"
      "r = r2" using assms p Inr s by (auto simp: store_object_def Let_def split: sum.splits)
    from s show ?thesis
    proof (cases rule: lfs_sys_cases)
      case ok
      then show ?thesis using renamed[of "w_fs w1"] w' f1 keep by simp
    next
      case (failed e x)
      have "w_fs w2 = w_fs w1"
        using failed(1,2) s fs_rename_Inl by (auto simp: lfs_sys_def syscall_def split: if_splits prod.splits sum.splits)
      then show ?thesis using kept failed w' f1 by simp
    qed
  qed
qed

text \<open>The end of a fetch: the file is verified, then stored or removed.\<close>

lemma verify_cases:
  assumes "(case sha256_file E tmp w of
      (Inl e, w1) \<Rightarrow> (Inl e, w1)
    | (Inr got, w1) \<Rightarrow>
        if got \<noteq> oid
        then (Inl (Fail [''lfs object '' @ oid @ '' failed integrity check (upstream returned '' @ got @ '')'']),
              io_ignore (io_remove_file E tmp) w1)
        else store_object E L key tmp final_path w1) = (r, w')"
    "components tmp = tmp_comps cfg t"
  obtains (kept) e where "r = Inl e" "R (w_fs w) (w_fs w')" "l_http w' = l_http w"
  | (renamed) f1 b tt where "r = Inr ()" "R (w_fs w) f1" "l_http w' = l_http w"
      "fs_lookup f1 (tmp_comps cfg t) = Some (File b tt)" "hex_encode (sha256 E b) = oid"
      "fs_rename (tmp_comps cfg t) (components final_path) f1 = (Inr (), w_fs w')"
proof -
  obtain r4 w4 where h: "sha256_file E tmp w = (r4, w4)" by force
  note f4 = sha256_file_cases[OF h]
  consider e where "r4 = Inl e" | got where "r4 = Inr got" "got \<noteq> oid" | "r4 = Inr oid" by (cases r4) auto
  then show ?thesis
  proof cases
    case 1
    then show ?thesis using kept assms(1) h f4 R_refl by auto
  next
    case (2 got)
    then have "(\<exists>e. r = Inl e) \<and> w' = io_ignore (io_remove_file E tmp) w4" using assms(1) h by auto
    then show ?thesis using kept f4 remove_tmp_frame[OF assms(2), of w4 E] by auto
  next
    case 3
    then have so: "store_object E L key tmp final_path w4 = (r, w')" using assms(1) h by simp
    obtain b bt where b: "fs_lookup (w_fs w4) (tmp_comps cfg t) = Some (File b bt)" "hex_encode (sha256 E b) = oid"
      using f4 3 assms(2) by auto
    from so show ?thesis
    proof (cases rule: store_object_cases)
      case (kept e)
      then show ?thesis using that(1) f4 by auto
    next
      case (renamed f1)
      then show ?thesis using that(2)[of f1 b bt] b f4 assms(2) by auto
    qed
  qed
qed

text \<open>Up to the end of the download: the fetch fails, or goes on to verify the temporary file.\<close>

lemma fetch_object_downloads:
  assumes "fetch_object E L cfg repo oid sz key final_path w = (r, w')"
  obtains (kept) e where "r = Inl e" "R (w_fs w) (w_fs w')" "sends E cfg repo (l_http w) (l_http w')"
  | (downloaded) tmp t w1 where "components tmp = tmp_comps cfg t" "R (w_fs w) (w_fs w1)"
      "sends E cfg repo (l_http w) (l_http w1)"
      "(case sha256_file E tmp w1 of
          (Inl e, w1) \<Rightarrow> (Inl e, w1)
        | (Inr got, w1) \<Rightarrow>
            if got \<noteq> oid
            then (Inl (Fail [''lfs object '' @ oid @ '' failed integrity check (upstream returned '' @ got @ '')'']),
                  io_ignore (io_remove_file E tmp) w1)
            else store_object E L key tmp final_path w1) = (r, w')"
proof -
  obtain r1 w1 where a: "download_action E cfg repo oid sz w = (r1, w1)" by force
  note f1 = download_action_cases[OF a]
  then have s1: "sends E cfg repo (l_http w) (l_http w1)" by (auto simp: sends_def)
  obtain r2 w2 where t: "tmp_path E cfg w1 = (r2, w2)" by force
  note f2 = tmp_path_frame[OF t]
  have n2: "R (w_fs w) (w_fs w2)" "sends E cfg repo (l_http w) (l_http w2)" using f1 f2 s1 by simp_all
  consider e where "r1 = Inl e" | href headers e where "r1 = Inr (href, headers)" "r2 = Inl e"
    | href headers tmp where "r1 = Inr (href, headers)" "r2 = Inr tmp" by (cases r1; cases r2) auto
  then show ?thesis
  proof cases
    case (1 e)
    then have "r = Inl e" "w' = w1" using assms a by (simp_all add: fetch_object_def)
    then show ?thesis using kept f1 s1 R_refl by simp
  next
    case (2 href headers e)
    then have "r = Inl e" "w' = w2" using assms a t by (simp_all add: fetch_object_def)
    then show ?thesis using kept n2 by simp
  next
    case (3 href headers tmp)
    then obtain tn where tn: "components tmp = tmp_comps cfg tn" using f2 by blast
    obtain r3 w3 where d: "download_to_file E href headers tmp w2 = (r3, w3)" by force
    note f3 = download_to_file_frame[OF d tn]
    have n3: "R (w_fs w) (w_fs w3)" using n2(1) f3 R_trans by blast
    have "upstream_req E cfg repo (download_req href headers)" using f1 3(1) unfolding upstream_req_def by blast
    then have s3: "sends E cfg repo (l_http w) (l_http w3)" using f1 f2 f3 by (auto simp: sends_def)
    note fetch = assms[unfolded fetch_object_def a t d 3 prod.case sum.case]
    show ?thesis
      using fetch kept n3 s3 remove_tmp_frame[OF tn, of w3 E] R_trans downloaded[OF tn n3 s3] by (cases r3) auto
  qed
qed

lemma fetch_object_cases:
  assumes "fetch_object E L cfg repo oid sz key final_path w = (r, w')"
  obtains (kept) e where "r = Inl e" "R (w_fs w) (w_fs w')" "sends E cfg repo (l_http w) (l_http w')"
  | (renamed) f1 b t tt where "r = Inr ()" "R (w_fs w) f1" "sends E cfg repo (l_http w) (l_http w')"
      "fs_lookup f1 (tmp_comps cfg t) = Some (File b tt)" "hex_encode (sha256 E b) = oid"
      "fs_rename (tmp_comps cfg t) (components final_path) f1 = (Inr (), w_fs w')"
  using assms
proof (cases rule: fetch_object_downloads)
  case (downloaded tmp t w1)
  from downloaded(4,1) show ?thesis
  proof (cases rule: verify_cases)
    case (kept e)
    then show ?thesis using that(1)[of e] downloaded(3) R_trans[OF downloaded(2)] by simp
  next
    case (renamed f1 b tt)
    then show ?thesis using that(2)[of f1 t b tt] downloaded(3) R_trans[OF downloaded(2)] by simp
  qed
qed (rule that(1))

end

section \<open>No new objects, and nothing outside the cache\<close>

text \<open>No object appears or changes between two file systems.\<close>

definition no_new_objects :: "LfsConfig \<Rightarrow> fs \<Rightarrow> fs \<Rightarrow> bool" where
  "no_new_objects cfg f f' \<longleftrightarrow> (\<forall>oid b t. valid_lfs_oid oid \<longrightarrow>
     fs_lookup f' (object_path cfg oid) = Some (File b t) \<longrightarrow> fs_lookup f (object_path cfg oid) = Some (File b t))"

lemma no_new_refl [simp]: "no_new_objects cfg f f"
  by (simp add: no_new_objects_def)

lemma no_new_trans: "no_new_objects cfg f g \<Longrightarrow> no_new_objects cfg g h \<Longrightarrow> no_new_objects cfg f h"
  by (simp add: no_new_objects_def)

lemma no_new_create: "fs_create_dir_all p f = (r, f') \<Longrightarrow> no_new_objects cfg f f'"
  unfolding no_new_objects_def fs_create_dir_all_def by (metis create_dirs_lookup node.distinct(1) option.inject)

lemma no_new_put_tmp: "no_new_objects cfg f (fs_put (tmp_comps cfg t) n f)"
  using object_not_tmp(1) by (auto simp: no_new_objects_def fs_lookup_put)

lemma no_new_remove_file: "fs_remove_file p f = (r, f') \<Longrightarrow> no_new_objects cfg f f'"
  by (auto simp: fs_remove_file_def no_new_objects_def fs_lookup_remove_at split: option.splits node.splits if_splits)

interpretation objects: lfs_frame cfg "no_new_objects cfg" for cfg
  by unfold_locales (auto intro: no_new_trans no_new_create no_new_put_tmp no_new_remove_file)

lemma tmp_below_root: "prefix (components (cache_root cfg)) (tmp_comps cfg t)"
  by (simp add: tmp_comps_def)

lemma keeps_put_below: "prefix p q \<Longrightarrow> keeps_outside [p] f (fs_put q n f)"
  by (auto simp: keeps_outside_def kept_at_def fs_lookup_put)

lemma keeps_remove_below: "prefix p q \<Longrightarrow> fs_remove_file q f = (r, f') \<Longrightarrow> keeps_outside [p] f f'"
  by (auto simp: keeps_outside_def kept_at_def fs_remove_file_def fs_lookup_remove_at split: option.splits node.splits if_splits)

interpretation outside: lfs_frame cfg "keeps_outside [components (cache_root cfg)]" for cfg
  by unfold_locales
    (auto intro: keeps_outside_trans keeps_outside_create keeps_put_below keeps_remove_below tmp_below_root)

text \<open>After a rename of the temporary file over an object's path, that object is the file and no other
  object has changed.\<close>

definition stored :: "LfsConfig \<Rightarrow> string \<Rightarrow> string \<Rightarrow> fs \<Rightarrow> fs \<Rightarrow> bool" where
  "stored cfg oid b f f' \<longleftrightarrow> (\<exists>t. fs_lookup f' (object_path cfg oid) = Some (File b t)) \<and>
     (\<forall>oid' b' t. valid_lfs_oid oid' \<longrightarrow> oid' \<noteq> oid \<longrightarrow> fs_lookup f' (object_path cfg oid') = Some (File b' t) \<longrightarrow>
        fs_lookup f (object_path cfg oid') = Some (File b' t))"

lemma rename_stores:
  assumes "valid_lfs_oid oid" "fs_lookup f (tmp_comps cfg t) = Some (File b tt)"
    "fs_rename (tmp_comps cfg t) (object_path cfg oid) f = (Inr (), f')"
  shows "stored cfg oid b f f'"
proof -
  note np = object_not_tmp[OF assms(1), of cfg t]
  have "f' = fs_move (tmp_comps cfg t) (object_path cfg oid) f"
    using fs_rename_Inr[OF assms(3)] np(1) by auto
  then have l: "fs_lookup f' q = (if prefix (object_path cfg oid) q then
      fs_lookup f (tmp_comps cfg t @ drop (length (object_path cfg oid)) q)
     else if prefix (tmp_comps cfg t) q then None else fs_lookup f q)" for q
    using fs_lookup_move[OF np(2,3)] by simp
  have "fs_lookup f' (object_path cfg oid') \<in> {None, fs_lookup f (object_path cfg oid')}" if "oid' \<noteq> oid" for oid'
  proof -
    have "\<not> prefix (object_path cfg oid) (object_path cfg oid')" using that by (simp add: object_path_def)
    then show ?thesis by (simp add: l)
  qed
  moreover have "fs_lookup f' (object_path cfg oid) = Some (File b tt)" using assms(2) by (simp add: l)
  ultimately show ?thesis by (fastforce simp: stored_def)
qed

section \<open>The store\<close>

text \<open>Every object of the store hashes to its name.\<close>

definition store_sound :: "('e) lfs_env_scheme \<Rightarrow> LfsConfig \<Rightarrow> fs \<Rightarrow> bool" where
  "store_sound E cfg f \<longleftrightarrow> (\<forall>oid b t. valid_lfs_oid oid \<longrightarrow>
     fs_lookup f (object_path cfg oid) = Some (File b t) \<longrightarrow> hex_encode (sha256 E b) = oid)"

lemma store_sound_no_new: "store_sound E cfg f \<Longrightarrow> no_new_objects cfg f f' \<Longrightarrow> store_sound E cfg f'"
  unfolding store_sound_def no_new_objects_def by blast

lemma store_sound_stored:
  assumes "store_sound E cfg f" "stored cfg oid b f f'" "hex_encode (sha256 E b) = oid"
  shows "store_sound E cfg f'"
  unfolding store_sound_def
proof (intro allI impI)
  fix oid' b' t' assume o: "valid_lfs_oid oid'" "fs_lookup f' (object_path cfg oid') = Some (File b' t')"
  show "hex_encode (sha256 E b') = oid'"
  proof (cases "oid' = oid")
    case True
    then show ?thesis using assms(2,3) o(2) by (auto simp: stored_def)
  next
    case False
    then show ?thesis using assms(1,2) o by (auto simp: stored_def store_sound_def)
  qed
qed

text \<open>The ways \<open>ensure_object\<close> goes.\<close>

lemma ensure_object_cases:
  assumes "ensure_object E L cfg repo oid sz others w = (r, w')" "lfs_object_key oid = Some key"
  obtains (hit) u where "u \<in> {w, others (lfs_slot oid w)}" "cached (path_join (cache_root cfg) key) u"
      "r = Inr (path_join (cache_root cfg) key, OutHit)" "w' = touch_index L key u"
  | (no_size) e where "sz = None" "r = Inl e" "w' = others (lfs_slot oid w)"
  | (fetched) n r0 where "sz = Some n"
      "fetch_object E L cfg repo oid n key (path_join (cache_root cfg) key) (others (lfs_slot oid w)) = (r0, w')"
      "r = (case r0 of Inl e \<Rightarrow> Inl e | Inr _ \<Rightarrow> Inr (path_join (cache_root cfg) key, OutMiss))"
  using assms
  by (cases sz) (auto simp: ensure_object_def Let_def or_fail_def split: if_splits prod.splits sum.splits)

lemma touch_index_frame [simp]:
  fixes w :: "('l, 'z) lfs_world_scheme"
  shows "w_fs (touch_index L key w) = w_fs w" "l_http (touch_index L key w) = l_http w"
  by (simp_all add: touch_index_def)

lemma lfs_slot_frame [simp]: "w_fs (lfs_slot oid w) = w_fs w" "l_http (lfs_slot oid w) = l_http w"
  by (simp_all add: lfs_slot_def)

lemma ensure_object_sound:
  assumes "valid_lfs_oid oid" "store_sound E cfg (w_fs w)"
    "store_sound E cfg (w_fs (others (lfs_slot oid w)))"
    "ensure_object E L cfg repo oid sz others w = (r, w')"
  shows "store_sound E cfg (w_fs w') \<and>
    (\<forall>path out. r = Inr (path, out) \<longrightarrow>
       lfs_object_path (cache_root cfg) oid = Some path \<and> fs_lookup (w_fs w') (components path) \<noteq> None)"
proof -
  obtain key where k: "lfs_object_key oid = Some key" using lfs_object_key_valid[OF assms(1)] by blast
  let ?path = "path_join (cache_root cfg) key"
  have p: "lfs_object_path (cache_root cfg) oid = Some ?path" "components ?path = object_path cfg oid"
    using k object_key_path[OF assms(1) k] by (simp_all add: lfs_object_path_def)
  note o = assms(3)
  from assms(4) k show ?thesis
  proof (cases rule: ensure_object_cases)
    case (hit u)
    then show ?thesis using assms(2) o p by (auto simp: cached_def fs_exists_iff)
  next
    case (no_size e)
    then show ?thesis using o by simp
  next
    case (fetched n r0)
    from fetched(2) show ?thesis
    proof (cases rule: objects.fetch_object_cases)
      case (kept e)
      then show ?thesis using fetched(3) store_sound_no_new[OF o] by simp
    next
      case (renamed f1 b t tt)
      have s: "stored cfg oid b f1 (w_fs w')" using rename_stores[OF assms(1) renamed(4)] renamed(6) p(2) by simp
      then have "fs_lookup (w_fs w') (components ?path) \<noteq> None" unfolding p(2) by (auto simp: stored_def)
      then show ?thesis
        using store_sound_stored[OF store_sound_no_new[OF o renamed(2)] s renamed(5)] fetched(3) renamed(1) p(1) by auto
    qed
  qed
qed

lemma ensure_object_outside:
  assumes "valid_lfs_oid oid" "ensure_object E L cfg repo oid sz others w = (r, w')"
    "keeps_outside [components (cache_root cfg)] (w_fs w) (w_fs (others (lfs_slot oid w)))"
  shows "keeps_outside [components (cache_root cfg)] (w_fs w) (w_fs w')"
proof -
  let ?K = "keeps_outside [components (cache_root cfg)]"
  obtain key where k: "lfs_object_key oid = Some key" using lfs_object_key_valid[OF assms(1)] by blast
  note o = assms(3)
  from assms(2) k show ?thesis
  proof (cases rule: ensure_object_cases)
    case (hit u)
    then show ?thesis using o by auto
  next
    case (no_size e)
    then show ?thesis using o by simp
  next
    case (fetched n r0)
    from fetched(2) show ?thesis
    proof (cases rule: outside.fetch_object_cases)
      case (kept e)
      then show ?thesis using keeps_outside_trans[OF o] by simp
    next
      case (renamed f1 b t tt)
      have "prefix (components (cache_root cfg)) (object_path cfg oid)" by (simp add: object_path_def)
      then have "?K f1 (w_fs w')"
        using same_outside_rename[OF renamed(6)] tmp_below_root[of cfg t] object_key_path[OF assms(1) k, of cfg]
        unfolding keeps_outside_def same_outside_def by (auto dest: prefix_order.trans)
      then show ?thesis using keeps_outside_trans[OF keeps_outside_trans[OF o renamed(2)]] by simp
    qed
  qed
qed

section \<open>Rewritten batches\<close>

lemma rewrite_download_lookup:
  "map_of (rewrite_download base repo token oid sz d) =
     (map_of d)(''href'' \<mapsto> JString (proxy_href base repo oid sz),
       ''header'' := map_option (\<lambda>t. JObject [(''Authorization'', JString (''Bearer '' @ t))]) token)"
  by (cases token) (simp_all add: rewrite_download_def obj_of_def Let_def)

lemma rewrite_object_action:
  assumes "jget ''oid'' obj = Some (JString oid)" "jget ''actions'' obj = Some acts"
    "jget ''download'' acts = Some (JObject d)"
  shows "rewrite_object base repo token obj =
    jset ''actions'' (jset ''download'' (JObject (rewrite_download base repo token oid
      (case Option.bind (jget ''size'' obj) as_u64 of None \<Rightarrow> 0 | Some n \<Rightarrow> n) d)) acts) obj"
  using assms by (simp add: rewrite_object_def Let_def)

section \<open>An example for the witnesses\<close>

definition sample_oid :: string where
  "sample_oid = replicate 64 (CHR ''a'')"

text \<open>An upstream whose batch answers, whatever it is asked, name one link, under which there is one object.\<close>

definition sample_download :: json where
  "sample_download = JObject [(''objects'', JArray [JObject [(''actions'', JObject [(''download'',
     JObject [(''header'', JObject [(''X-Token'', JString ''t'')]), (''href'', JString ''https://s/1'')])]),
     (''oid'', JString sample_oid), (''size'', JNumber (PosInt 2))]])]"

definition sample_lfs_env :: lfs_env where
  "sample_lfs_env = \<lparr>fault = \<lambda>_. False, hash_iter = \<lambda>_. [], fault_keeps = \<lambda>_ _. False, clock = \<lambda>n. 100 + n,
     git = sample_git, http = \<lambda>_ _. Some \<lparr>hs_status = 200, hs_chunks = [Some ''o'', Some ''k'']\<rparr>,
     parse_json = \<lambda>_. Some sample_download, print_json = \<lambda>_. Some ''{}'', header_name = Some, header_value = Some,
     sha256 = \<lambda>_. replicate 32 (CHR 0xAA), process_id = 7\<rparr>"

definition sample_lfs_cfg :: LfsConfig where
  "sample_lfs_cfg = \<lparr>upstream_base = ''https://up'', cache_root = ''/c'', lfs_auth_header = None,
     serve_token = Some ''tok''\<rparr>"

definition sample_lfs_world :: "(string \<times> u64) list lfs_world" where
  "sample_lfs_world = \<lparr>w_fs = \<lparr>entries = [([RootDir], Dir), ([RootDir, Normal ''c''], Dir)], deny = []\<rparr>,
     w_tick = 0, w_trace = [], w_slots = Map.empty, w_index = None, l_slots = {}, l_tmp_counter = 0, l_http = []\<rparr>"

lemma sample_oid_valid: "valid_lfs_oid sample_oid"
  by code_simp

lemma sample_key: "lfs_object_key sample_oid = Some (LFS_OBJECTS_DIR @ ''/aa/'' @ sample_oid)"
  by (simp add: lfs_object_key_def sample_oid_def numeral_2_eq_2)

definition sample_ensure ::
  "(lfs_error + string \<times> Outcome) \<times> (string \<times> u64) list lfs_world" where
  "sample_ensure = ensure_object sample_lfs_env list_lru sample_lfs_cfg ''g/r'' sample_oid (Some 2) id sample_lfs_world"

lemma sample_ensure_result:
  "fst sample_ensure = Inr (''/c/.__lfs__/aa/'' @ sample_oid, OutMiss)"
  by code_simp

lemma sample_ensure_sent:
  "map hr_url (l_http (snd sample_ensure)) = [''https://up/g/r/info/lfs/objects/batch'', ''https://s/1'']"
  by code_simp

section \<open>Properties\<close>

text \<open>C5: Nothing enters the object store that does not hash to its name. Whatever the upstream answers,
  whichever steps fail, and whatever other requests do meanwhile within the same rule, a store in which
  every object hashes to its id stays so; and an object that is reported as served is there, under its
  path in the store.\<close>

theorem lfs_store_sound:
  assumes "valid_lfs_oid oid" "store_sound E cfg (w_fs w)"
    "\<And>u. store_sound E cfg (w_fs u) \<Longrightarrow> store_sound E cfg (w_fs (others u))"
    "ensure_object E L cfg repo oid sz others w = (r, w')"
  shows "store_sound E cfg (w_fs w') \<and>
    (\<forall>path out. r = Inr (path, out) \<longrightarrow>
       lfs_object_path (cache_root cfg) oid = Some path \<and> fs_lookup (w_fs w') (components path) \<noteq> None)"
  using ensure_object_sound[OF assms(1,2) _ assms(4)] assms(3)[of "lfs_slot oid w"] assms(2) by simp

theorem lfs_store_sound_witness:
  "store_sound sample_lfs_env sample_lfs_cfg (w_fs (snd sample_ensure)) \<and>
   fs_lookup (w_fs (snd sample_ensure)) (components (''/c/.__lfs__/aa/'' @ sample_oid)) \<noteq> None"
proof -
  have "store_sound sample_lfs_env sample_lfs_cfg (w_fs sample_lfs_world)"
    by (simp add: store_sound_def sample_lfs_world_def fs_lookup_def object_path_def)
  from lfs_store_sound[OF sample_oid_valid this, of id list_lru "''g/r''" "Some 2", OF _ prod.collapse[symmetric]]
  show ?thesis using sample_ensure_result unfolding sample_ensure_def by simp
qed





end
