(* ===== verification/UploadPack.thy ===== *)
theory UploadPack
  imports GitCache
begin

text \<open>
  The streaming of packs in \<^verbatim>\<open>src/src/git.rs\<close>: \<open>upload_pack_rpc\<close>, the task \<open>reap_upload_pack\<close> that it leaves behind,
  \<open>kill_group\<close>, and \<open>TimedReader\<close>, which the response stream reads. A session is one call of \<open>upload_pack_rpc\<close>
  with its child process and its reaper; the sessions run side by side and share the permits of the
  semaphore. The lemmas bound the processes by the permits, and show that a pack is abandoned exactly
  when its client is, and recorded once.
\<close>

section \<open>The reader\<close>

record TimedReader =
  tr_repo :: string
  recorder :: "nat option"
  served :: bool

text \<open>The one-shot channel from the reader to the reaper: the sender is held, has sent, or was dropped
  without sending.\<close>

datatype oneshot = Held | Sent | Dropped

text \<open>\<open>record\<close>: the recorder is taken, so that it is used once; \<open>now\<close> is the reading of the clock.\<close>

definition reader_record :: "nat \<Rightarrow> TimedReader \<Rightarrow> TimedReader \<times> metric_call list" where
  "reader_record now r =
     (case recorder r of
        None \<Rightarrow> (r, [])
      | Some started \<Rightarrow> (r\<lparr>recorder := None\<rparr>, observe_serve ServeUploadPack (tr_repo r) (now - started)))"

definition reader_finish :: "nat \<Rightarrow> TimedReader \<times> oneshot \<Rightarrow> (TimedReader \<times> oneshot) \<times> metric_call list" where
  "reader_finish now rc =
     (case rc of (r, chan) \<Rightarrow>
        case reader_record now (r\<lparr>served := False\<rparr>) of
          (r', calls) \<Rightarrow> ((r', if served r then Sent else chan), calls))"

text \<open>One poll of the child's standard output: pending, failed, or ready with the bytes read (none at the end
  of the stream; the stream polls with a buffer that has room).\<close>

datatype poll = PollPending | PollErr io_error | PollReady string

definition poll_read ::
  "nat \<Rightarrow> poll \<Rightarrow> TimedReader \<times> oneshot \<Rightarrow> (TimedReader \<times> oneshot) \<times> metric_call list" where
  "poll_read now p rc =
     (case p of
        PollReady bytes \<Rightarrow> if bytes = [] then reader_finish now rc else (rc, [])
      | _ \<Rightarrow> (rc, []))"

text \<open>Dropping the reader records, then drops its fields, the sender among them.\<close>

definition reader_drop :: "nat \<Rightarrow> TimedReader \<times> oneshot \<Rightarrow> oneshot \<times> metric_call list" where
  "reader_drop now rc =
     (case rc of (r, chan) \<Rightarrow> (if served r then Dropped else chan, snd (reader_record now r)))"

section \<open>Killing a process group\<close>

text \<open>The process id of a child that has not been reaped; \<open>kill\<close> is the system call.\<close>

definition kill_group :: "32 word option \<Rightarrow> (int \<Rightarrow> io_error + unit) \<Rightarrow> io_error + unit" where
  "kill_group child_id kill =
     (case child_id of
        None \<Rightarrow> Inl OtherIo
      | Some n \<Rightarrow> if uint n \<ge> 2 ^ 31 \<or> n = 0 then Inl OtherIo else kill (uint n))"

section \<open>Sessions\<close>

definition upload_pack_cmd :: "GitConfig \<Rightarrow> RepoRef \<Rightarrow> string option \<Rightarrow> string \<Rightarrow> git_cmd" where
  "upload_pack_cmd cfg repo git_protocol body =
     (add_args [''upload-pack'', ''--stateless-rpc'', cache_dir repo] (local_cmd cfg git_protocol))\<lparr>stdin := body\<rparr>"

text \<open>The handler's part: waiting for a permit, writing the request, streaming, and over, with the error it
  returned, if it did.\<close>

datatype rpc_phase = Acquiring | Writing nat | Streaming TimedReader | Over "error option"

text \<open>The child: \<open>Unspawned\<close>, \<open>Running\<close>, ended and not yet waited for, and reaped. A kill reaches the whole group or,
  when that fails, the leader.\<close>

datatype child = Unspawned | Running | Ended | Reaped

datatype kill_reach = NoKill | KilledGroup | KilledLeader

text \<open>The reaper: not yet there, in its \<open>select!\<close>, waiting for a served or a killed child, and done.\<close>

datatype reaper = NoReaper | Selecting | WaitServed | WaitKilled | ReaperDone

fun reaping :: "reaper \<Rightarrow> bool" where
  "reaping NoReaper = False"
| "reaping ReaperDone = False"
| "reaping _ = True"

record session =
  ss_repo :: RepoRef
  ss_phase :: rpc_phase
  ss_chan :: oneshot
  ss_child :: child
  ss_kill :: kill_reach
  ss_reaper :: reaper
  ss_permit :: bool
  ss_calls :: "metric_call list"

definition new_session :: "RepoRef \<Rightarrow> session" where
  "new_session repo = \<lparr>ss_repo = repo, ss_phase = Acquiring, ss_chan = Held, ss_child = Unspawned,
     ss_kill = NoKill, ss_reaper = NoReaper, ss_permit = False, ss_calls = []\<rparr>"

text \<open>\<open>acquire_owned\<close> on the semaphore, when there is one: \<open>None\<close> while no permit is free. The semaphore is never
  closed, so that it does not fail.\<close>

fun acquire :: "nat option \<Rightarrow> (nat option \<times> bool) option" where
  "acquire None = Some (None, False)"
| "acquire (Some 0) = None"
| "acquire (Some (Suc n)) = Some (Some n, True)"

definition release :: "bool \<Rightarrow> nat option \<Rightarrow> nat option" where
  "release permit free = (if permit then map_option Suc free else free)"

text \<open>With a permit (or none needed) the child is spawned at once: nothing is awaited in between. A failed
  spawn drops the permit.\<close>

definition start_session :: "nat \<Rightarrow> (io_error + unit) \<Rightarrow> bool \<Rightarrow> nat option \<Rightarrow> session \<Rightarrow> session \<times> nat option" where
  "start_session now spawned permit free s =
     (case spawned of
        Inl e \<Rightarrow> (s\<lparr>ss_phase := Over (Some (IoFail ''spawn git upload-pack'' e))\<rparr>, release permit free)
      | Inr _ \<Rightarrow> (s\<lparr>ss_phase := Writing now, ss_child := Running, ss_reaper := Selecting, ss_permit := permit\<rparr>, free))"

text \<open>The write of the request body: its end starts the stream; its failure, or the request being dropped
  meanwhile, drops the sender.\<close>

definition written :: "(io_error + unit) \<Rightarrow> nat \<Rightarrow> session \<Rightarrow> session" where
  "written r started s =
     (case r of
        Inl e \<Rightarrow> s\<lparr>ss_phase := Over (Some (IoFail ''write upload-pack request'' e)), ss_chan := Dropped\<rparr>
      | Inr _ \<Rightarrow> s\<lparr>ss_phase := Streaming \<lparr>tr_repo = name (ss_repo s), recorder = Some started, served = True\<rparr>\<rparr>)"

definition polled :: "nat \<Rightarrow> poll \<Rightarrow> TimedReader \<Rightarrow> session \<Rightarrow> session" where
  "polled now p r s =
     (case poll_read now p (r, ss_chan s) of
        ((r', chan), calls) \<Rightarrow> s\<lparr>ss_phase := Streaming r', ss_chan := chan, ss_calls := ss_calls s @ calls\<rparr>)"

definition dropped :: "nat \<Rightarrow> TimedReader \<Rightarrow> session \<Rightarrow> session" where
  "dropped now r s =
     (case reader_drop now (r, ss_chan s) of
        (chan, calls) \<Rightarrow> s\<lparr>ss_phase := Over None, ss_chan := chan, ss_calls := ss_calls s @ calls\<rparr>)"

text \<open>The reaper's moves. The \<open>select!\<close> is biased towards the child's exit.\<close>

definition reap :: "nat option \<Rightarrow> session \<Rightarrow> session \<times> nat option" where
  "reap free s = (s\<lparr>ss_child := Reaped, ss_reaper := ReaperDone, ss_permit := False\<rparr>, release (ss_permit s) free)"

definition abandon :: "32 word option \<Rightarrow> (int \<Rightarrow> io_error + unit) \<Rightarrow> session \<Rightarrow> session" where
  "abandon child_id kill s =
     s\<lparr>ss_reaper := WaitKilled,
       ss_kill := (case kill_group child_id kill of Inr _ \<Rightarrow> KilledGroup | Inl _ \<Rightarrow> KilledLeader)\<rparr>"

inductive session_step :: "nat option \<Rightarrow> session \<Rightarrow> nat option \<Rightarrow> session \<Rightarrow> bool" where
  start: "ss_phase s = Acquiring \<Longrightarrow> acquire free = Some (free1, permit) \<Longrightarrow>
      start_session now spawned permit free1 s = (s', free') \<Longrightarrow> session_step free s free' s'"
| give_up: "ss_phase s = Acquiring \<Longrightarrow> session_step free s free (s\<lparr>ss_phase := Over None\<rparr>)"
| write_done: "ss_phase s = Writing started \<Longrightarrow> session_step free s free (written r started s)"
| write_dropped: "ss_phase s = Writing started \<Longrightarrow>
      session_step free s free (s\<lparr>ss_phase := Over None, ss_chan := Dropped\<rparr>)"
| poll: "ss_phase s = Streaming r \<Longrightarrow> session_step free s free (polled now p r s)"
| hang_up: "ss_phase s = Streaming r \<Longrightarrow> session_step free s free (dropped now r s)"
| exit: "ss_child s = Running \<Longrightarrow> session_step free s free (s\<lparr>ss_child := Ended\<rparr>)"
| reaped: "reaping (ss_reaper s) \<Longrightarrow> ss_child s = Ended \<Longrightarrow>
      reap free s = (s', free') \<Longrightarrow> session_step free s free' s'"
| told_served: "ss_reaper s = Selecting \<Longrightarrow> ss_child s = Running \<Longrightarrow> ss_chan s = Sent \<Longrightarrow>
      session_step free s free (s\<lparr>ss_reaper := WaitServed\<rparr>)"
| told_gone: "ss_reaper s = Selecting \<Longrightarrow> ss_child s = Running \<Longrightarrow> ss_chan s = Dropped \<Longrightarrow>
      session_step free s free (abandon child_id kill s)"

text \<open>All sessions, beside the free permits of \<open>GitCache::new\<close>.\<close>

record packs =
  pk_free :: "nat option"
  pk_sessions :: "session list"

definition new_packs :: "GitConfig \<Rightarrow> packs" where
  "new_packs cfg = \<lparr>pk_free = (if max_upload_packs cfg > 0 then Some (max_upload_packs cfg) else None), pk_sessions = []\<rparr>"

inductive packs_step :: "packs \<Rightarrow> packs \<Rightarrow> bool" where
  arrive: "packs_step P (P\<lparr>pk_sessions := pk_sessions P @ [new_session repo]\<rparr>)"
| progress: "i < length (pk_sessions P) \<Longrightarrow> session_step (pk_free P) (pk_sessions P ! i) free' s' \<Longrightarrow>
      packs_step P (P\<lparr>pk_free := free', pk_sessions := (pk_sessions P)[i := s']\<rparr>)"

section \<open>The invariant of a session\<close>

definition live :: "session \<Rightarrow> bool" where
  "live s \<longleftrightarrow> ss_child s = Running \<or> ss_child s = Ended"

text \<open>What \<open>observe_serve\<close> calls a session may have made.\<close>

definition served_once :: "session \<Rightarrow> bool" where
  "served_once s \<longleftrightarrow> (\<exists>d. ss_calls s = observe_serve ServeUploadPack (name (ss_repo s)) d)"

fun phase_ok :: "rpc_phase \<Rightarrow> session \<Rightarrow> bool" where
  "phase_ok Acquiring s = (ss_reaper s = NoReaper \<and> ss_chan s = Held \<and> ss_calls s = [])"
| "phase_ok (Writing t) s = (ss_reaper s \<noteq> NoReaper \<and> ss_chan s = Held \<and> ss_calls s = [])"
| "phase_ok (Streaming r) s =
     (ss_reaper s \<noteq> NoReaper \<and> tr_repo r = name (ss_repo s) \<and>
      (if served r then ss_chan s = Held \<and> recorder r \<noteq> None \<and> ss_calls s = []
       else ss_chan s = Sent \<and> recorder r = None \<and> served_once s))"
| "phase_ok (Over e) s =
     (if ss_reaper s = NoReaper then ss_chan s = Held \<and> ss_calls s = []
      else ss_chan s = Sent \<and> served_once s \<or> ss_chan s = Dropped \<and> (ss_calls s = [] \<or> served_once s))"

definition session_ok :: "bool \<Rightarrow> session \<Rightarrow> bool" where
  "session_ok capped s \<longleftrightarrow>
     (ss_permit s \<longleftrightarrow> capped \<and> live s) \<and>
     (live s \<longleftrightarrow> reaping (ss_reaper s)) \<and>
     (ss_reaper s = NoReaper \<longleftrightarrow> ss_child s = Unspawned) \<and>
     (ss_reaper s = WaitServed \<longrightarrow> ss_chan s = Sent) \<and>
     (ss_reaper s = WaitKilled \<longrightarrow> ss_kill s \<noteq> NoKill) \<and>
     (ss_reaper s = Selecting \<or> ss_reaper s = WaitServed \<longrightarrow> ss_kill s = NoKill) \<and>
     (ss_kill s \<noteq> NoKill \<longrightarrow> ss_chan s = Dropped) \<and>
     phase_ok (ss_phase s) s"

lemmas session_defs = session_ok_def live_def served_once_def

lemma new_session_ok: "session_ok capped (new_session repo)"
  by (simp add: session_defs new_session_def)

text \<open>The permits a state of the semaphore leaves free, and what a step does to them.\<close>

lemma acquire_cases:
  assumes "acquire free = Some (free', permit)"
  shows "(permit \<longleftrightarrow> free \<noteq> None) \<and> release permit free' = free"
  using assms by (cases free rule: acquire.cases) (auto simp: release_def)

lemma session_ok_phase: "session_ok capped s \<Longrightarrow> ss_phase s = ph \<Longrightarrow> phase_ok ph s"
  by (simp add: session_ok_def)

lemma start_session_ok:
  assumes "session_ok capped s" "ss_phase s = Acquiring" "start_session now spawned capped free s = (s', free')"
  shows "session_ok capped s' \<and> free' = (if ss_permit s' \<or> \<not> capped then free else map_option Suc free)"
proof -
  have ph: "ss_reaper s = NoReaper \<and> ss_chan s = Held \<and> ss_calls s = []"
    using session_ok_phase[OF assms(1,2)] by simp
  then have "\<not> ss_permit s" "ss_kill s = NoKill" using assms(1) by (auto simp: session_ok_def)
  then show ?thesis
    using ph assms(1,3) by (cases spawned) (auto simp: start_session_def session_ok_def live_def release_def)
qed

text \<open>The handler's moves change its phase, the channel while the sender is held, and the calls.\<close>

lemma handler_ok:
  assumes "session_ok capped s" "ss_chan s = Held \<or> chan = ss_chan s"
    "phase_ok ph (s\<lparr>ss_phase := ph, ss_chan := chan, ss_calls := calls\<rparr>)"
  shows "session_ok capped (s\<lparr>ss_phase := ph, ss_chan := chan, ss_calls := calls\<rparr>)"
  using assms by (auto simp: session_ok_def live_def)

lemma polled_cases:
  assumes "phase_ok (Streaming r) s"
  shows "polled now p r s = s\<lparr>ss_phase := Streaming r, ss_chan := ss_chan s, ss_calls := ss_calls s\<rparr> \<or>
    (\<exists>d. polled now p r s = s\<lparr>ss_phase := Streaming (r\<lparr>served := False, recorder := None\<rparr>), ss_chan := Sent,
      ss_calls := (if served r then observe_serve ServeUploadPack (name (ss_repo s)) d else ss_calls s)\<rparr>)"
proof (cases "p = PollReady []")
  case True
  then show ?thesis
    using assms by (cases "served r") (auto simp: polled_def poll_read_def reader_finish_def reader_record_def)
next
  case False
  then have "polled now p r s = s\<lparr>ss_phase := Streaming r, ss_chan := ss_chan s, ss_calls := ss_calls s\<rparr>"
    by (cases p) (simp_all add: polled_def poll_read_def)
  then show ?thesis ..
qed

lemma polled_ok:
  assumes "session_ok capped s" "ss_phase s = Streaming r"
  shows "session_ok capped (polled now p r s) \<and> ss_permit (polled now p r s) = ss_permit s"
proof -
  note ph = session_ok_phase[OF assms]
  from polled_cases[OF ph, of now p] show ?thesis
  proof (elim disjE exE)
    assume "polled now p r s = s\<lparr>ss_phase := Streaming r, ss_chan := ss_chan s, ss_calls := ss_calls s\<rparr>"
    then have "polled now p r s = s" using assms(2) by simp
    then show ?thesis using assms(1) by simp
  next
    fix d
    let ?calls = "if served r then observe_serve ServeUploadPack (name (ss_repo s)) d else ss_calls s"
    assume p: "polled now p r s = s\<lparr>ss_phase := Streaming (r\<lparr>served := False, recorder := None\<rparr>), ss_chan := Sent,
      ss_calls := ?calls\<rparr>"
    have "session_ok capped (polled now p r s)" unfolding p
      by (rule handler_ok[OF assms(1)]) (use ph in \<open>auto simp: served_once_def split: if_splits\<close>)
    then show ?thesis by (simp add: p)
  qed
qed

lemma dropped_ok:
  assumes "session_ok capped s" "ss_phase s = Streaming r"
  shows "session_ok capped (dropped now r s) \<and> ss_permit (dropped now r s) = ss_permit s"
proof -
  note ph = session_ok_phase[OF assms]
  define calls where "calls = ss_calls s @ snd (reader_record now r)"
  have d: "dropped now r s = s\<lparr>ss_phase := Over None, ss_chan := if served r then Dropped else ss_chan s, ss_calls := calls\<rparr>"
    by (simp add: dropped_def reader_drop_def calls_def)
  have "session_ok capped (dropped now r s)" unfolding d
    by (rule handler_ok[OF assms(1)])
      (use ph in \<open>auto simp: calls_def reader_record_def served_once_def split: if_splits\<close>)
  then show ?thesis by (simp add: d)
qed

lemma written_ok:
  assumes "session_ok capped s" "ss_phase s = Writing t"
  shows "session_ok capped (written r t s) \<and> ss_permit (written r t s) = ss_permit s"
proof -
  note ph = session_ok_phase[OF assms]
  show ?thesis
  proof (cases r)
    case (Inl e)
    have w: "written r t s = s\<lparr>ss_phase := Over (Some (IoFail ''write upload-pack request'' e)), ss_chan := Dropped,
        ss_calls := ss_calls s\<rparr>" using Inl by (simp add: written_def)
    have "session_ok capped (written r t s)" unfolding w by (rule handler_ok[OF assms(1)]) (use ph in auto)
    then show ?thesis by (simp add: w)
  next
    case (Inr u)
    have w: "written r t s = s\<lparr>ss_phase := Streaming \<lparr>tr_repo = name (ss_repo s), recorder = Some t, served = True\<rparr>,
        ss_chan := ss_chan s, ss_calls := ss_calls s\<rparr>" using Inr by (simp add: written_def)
    have "session_ok capped (written r t s)" unfolding w by (rule handler_ok[OF assms(1)]) (use ph in auto)
    then show ?thesis by (simp add: w)
  qed
qed

lemma phase_ok_cong:
  assumes "ss_chan s' = ss_chan s" "ss_calls s' = ss_calls s" "ss_repo s' = ss_repo s"
    "(ss_reaper s' = NoReaper) = (ss_reaper s = NoReaper)"
  shows "phase_ok ph s' = phase_ok ph s"
  using assms by (cases ph) (auto simp: served_once_def)

text \<open>A step keeps the invariant, and the permits: what is free and what the session holds add up to the
  same.\<close>

definition holding :: "session \<Rightarrow> nat" where
  "holding s = (if ss_permit s then 1 else 0)"

lemma holding_new: "holding (new_session repo) = 0"
  by (simp add: holding_def new_session_def)

lemma session_step_ok:
  assumes "session_step free s free' s'" "session_ok (free \<noteq> None) s"
  shows "session_ok (free \<noteq> None) s' \<and> (free' \<noteq> None) = (free \<noteq> None) \<and>
    (\<forall>n. free = Some n \<longrightarrow> (\<exists>n'. free' = Some n' \<and> n' + holding s' = n + holding s))"
  using assms(1)
proof cases
  case (start free1 permit now spawned)
  note a = acquire_cases[OF start(2)]
  have h: "\<not> ss_permit s" using assms(2) start(1) by (simp add: session_defs)
  have "session_ok (free \<noteq> None) s' \<and> free' = (if ss_permit s' \<or> free = None then free1 else map_option Suc free1)"
    using start_session_ok[OF assms(2) start(1), of now spawned free1 s' free'] start(3) a by auto
  then show ?thesis using a h by (auto simp: holding_def release_def split: if_splits)
next
  case give_up
  then show ?thesis
    using handler_ok[OF assms(2), of "ss_chan s" "Over None" "ss_calls s"] session_ok_phase[OF assms(2)]
    by (simp add: holding_def)
next
  case (write_done started r)
  then show ?thesis using written_ok[OF assms(2)] by (simp add: holding_def)
next
  case (write_dropped started)
  then show ?thesis
    using handler_ok[OF assms(2), of Dropped "Over None" "ss_calls s"] session_ok_phase[OF assms(2)]
    by (simp add: holding_def)
next
  case (poll r now p)
  then show ?thesis using polled_ok[OF assms(2)] by (simp add: holding_def)
next
  case (hang_up r now)
  then show ?thesis using dropped_ok[OF assms(2)] by (simp add: holding_def)
next
  case exit
  have "phase_ok (ss_phase s) (s\<lparr>ss_child := Ended\<rparr>) = phase_ok (ss_phase s) s" by (rule phase_ok_cong) simp_all
  then show ?thesis using exit assms(2) by (auto simp: session_ok_def live_def holding_def)
next
  case reaped
  have s: "s' = s\<lparr>ss_child := Reaped, ss_reaper := ReaperDone, ss_permit := False\<rparr>" "free' = release (ss_permit s) free"
    using reaped(3) by (simp_all add: reap_def)
  have "phase_ok (ss_phase s) s' = phase_ok (ss_phase s) s" unfolding s by (rule phase_ok_cong) (use reaped in auto)
  then show ?thesis
    using reaped assms(2) by (auto simp: s session_ok_def live_def holding_def release_def)
next
  case told_served
  have "phase_ok (ss_phase s) s' = phase_ok (ss_phase s) s" unfolding told_served
    by (rule phase_ok_cong) (use told_served in auto)
  then show ?thesis using told_served assms(2) by (auto simp: session_ok_def live_def holding_def)
next
  case (told_gone child_id kill)
  have "phase_ok (ss_phase s) s' = phase_ok (ss_phase s) s" unfolding told_gone abandon_def
    by (rule phase_ok_cong) (use told_gone in auto)
  then show ?thesis
    using told_gone assms(2) by (auto simp: abandon_def session_ok_def live_def holding_def split: sum.splits)
qed

section \<open>The invariant of all sessions\<close>

definition packs_ok :: "GitConfig \<Rightarrow> packs \<Rightarrow> bool" where
  "packs_ok cfg P \<longleftrightarrow>
     (pk_free P = None \<longleftrightarrow> max_upload_packs cfg = 0) \<and>
     list_all (session_ok (max_upload_packs cfg \<noteq> 0)) (pk_sessions P) \<and>
     (\<forall>n. pk_free P = Some n \<longrightarrow> n + sum_list (map holding (pk_sessions P)) = max_upload_packs cfg)"

lemma packs_step_ok:
  assumes "packs_step P P'" "packs_ok cfg P"
  shows "packs_ok cfg P'"
  using assms(1)
proof cases
  case (arrive repo)
  then show ?thesis
    using assms(2) new_session_ok holding_new[of repo] by (auto simp: packs_ok_def)
next
  case (progress i free' s')
  let ?s = "pk_sessions P ! i"
  have c: "(pk_free P \<noteq> None) = (max_upload_packs cfg \<noteq> 0)" using assms(2) by (auto simp: packs_ok_def)
  have s: "session_ok (pk_free P \<noteq> None) ?s"
    unfolding c using assms(2) progress(2) by (simp add: packs_ok_def list_all_length)
  note st = session_step_ok[OF progress(3) s]
  have sum: "sum_list (map holding ((pk_sessions P)[i := s'])) + holding ?s =
      sum_list (map holding (pk_sessions P)) + holding s'"
    using progress(2) elem_le_sum_list[of i "map holding (pk_sessions P)"] by (simp add: map_update sum_list_update)
  have "session_ok (max_upload_packs cfg \<noteq> 0) s'" using st c by (simp del: not_None_eq)
  then have "list_all (session_ok (max_upload_packs cfg \<noteq> 0)) ((pk_sessions P)[i := s'])"
    using assms(2) set_update_subset_insert[of "pk_sessions P" i s'] by (auto simp: packs_ok_def list_all_iff)
  moreover have "n' + sum_list (map holding ((pk_sessions P)[i := s'])) = max_upload_packs cfg"
    if f: "free' = Some n'" for n'
  proof -
    obtain n where n: "pk_free P = Some n" using st f by (cases "pk_free P") auto
    then have "n' + holding s' = n + holding ?s" using st f by auto
    moreover have "n + sum_list (map holding (pk_sessions P)) = max_upload_packs cfg"
      using n assms(2) by (simp add: packs_ok_def)
    ultimately show ?thesis using sum by linarith
  qed
  ultimately show ?thesis using assms(2) st progress(1) by (auto simp: packs_ok_def)
qed

lemma packs_reachable_ok: "packs_step\<^sup>*\<^sup>* (new_packs cfg) P \<Longrightarrow> packs_ok cfg P"
proof (induction rule: rtranclp_induct)
  case base
  show ?case by (simp add: packs_ok_def new_packs_def)
next
  case (step P P')
  then show ?case using packs_step_ok by blast
qed

lemma packs_session_ok:
  assumes "packs_step\<^sup>*\<^sup>* (new_packs cfg) P" "s \<in> set (pk_sessions P)"
  shows "session_ok (max_upload_packs cfg \<noteq> 0) s"
  using packs_reachable_ok[OF assms(1)] assms(2) by (auto simp: packs_ok_def list_all_iff)

lemma sum_holding: "list_all (session_ok True) ss \<Longrightarrow> sum_list (map holding ss) = length (filter live ss)"
  by (induction ss) (auto simp: holding_def session_ok_def)

section \<open>Reaping\<close>

text \<open>The moves of session \<open>i\<close> alone.\<close>

lemma session_steps_lift:
  assumes "i < length (pk_sessions P)"
    "(\<lambda>(f, s) (f', s'). session_step f s f' s')\<^sup>*\<^sup>* (pk_free P, pk_sessions P ! i) (free', s')"
  shows "packs_step\<^sup>*\<^sup>* P (P\<lparr>pk_free := free', pk_sessions := (pk_sessions P)[i := s']\<rparr>)"
  using assms(2)
proof (induction "(free', s')" arbitrary: free' s' rule: rtranclp_induct)
  case base
  then show ?case by simp
next
  case (step y)
  obtain f1 s1 where y: "y = (f1, s1)" by force
  let ?P = "P\<lparr>pk_free := f1, pk_sessions := (pk_sessions P)[i := s1]\<rparr>"
  have "packs_step ?P (?P\<lparr>pk_free := free', pk_sessions := (pk_sessions ?P)[i := s']\<rparr>)"
    by (rule progress) (use step(2) y assms(1) in simp_all)
  then show ?case using step(3)[OF y] by simp
qed

lemma reap_running:
  assumes "session_ok capped s" "ss_phase s = Over e" "live s"
  shows "\<exists>free' s'. (\<lambda>(f, s) (f', s'). session_step f s f' s')\<^sup>*\<^sup>* (free, s) (free', s') \<and>
    ss_child s' = Reaped \<and> \<not> ss_permit s' \<and>
    (ss_chan s = Dropped \<and> ss_child s = Running \<longrightarrow> ss_kill s' \<noteq> NoKill)"
proof -
  let ?R = "\<lambda>(f, s) (f', s'). session_step f s f' s'"
  let ?step = "\<lambda>s1. reaping (ss_reaper s1)"
  have fin: "\<exists>free' s'. ?R\<^sup>*\<^sup>* (free, s1) (free', s') \<and> ss_child s' = Reaped \<and> \<not> ss_permit s' \<and> ss_kill s' = ss_kill s1"
    if "?step s1" "ss_child s1 = Ended" for s1
    using reaped[OF that, of free "fst (reap free s1)" "snd (reap free s1)"]
    by (intro exI[of _ "snd (reap free s1)"] exI[of _ "fst (reap free s1)"])
      (auto simp: reap_def)
  have run: "\<exists>free' s'. ?R\<^sup>*\<^sup>* (free, s1) (free', s') \<and> ss_child s' = Reaped \<and> \<not> ss_permit s' \<and> ss_kill s' = ss_kill s1"
    if r: "?step s1" "ss_child s1 = Running" for s1
  proof -
    let ?s2 = "s1\<lparr>ss_child := Ended\<rparr>"
    have "?R (free, s1) (free, ?s2)" using session_step.exit[OF r(2)] by simp
    moreover obtain free' s' where "?R\<^sup>*\<^sup>* (free, ?s2) (free', s')" "ss_child s' = Reaped" "\<not> ss_permit s'"
      "ss_kill s' = ss_kill ?s2" using fin[of ?s2] r(1) by auto
    ultimately show ?thesis
      by (intro exI[of _ free'] exI[of _ s']) (auto intro: converse_rtranclp_into_rtranclp)
  qed
  have st: "?step s" using assms(1,3) by (simp add: session_ok_def)
  show ?thesis
  proof (cases "ss_reaper s = Selecting \<and> ss_child s = Running \<and> ss_chan s = Dropped")
    case True
    let ?s1 = "abandon None (\<lambda>_. Inr ()) s"
    have "?R (free, s) (free, ?s1)" using told_gone True by simp
    moreover have "?step ?s1" "ss_child ?s1 = Running" "ss_kill ?s1 \<noteq> NoKill"
      using True by (simp_all add: abandon_def split: sum.split)
    moreover obtain free' s' where "?R\<^sup>*\<^sup>* (free, ?s1) (free', s')" "ss_child s' = Reaped" "\<not> ss_permit s'"
      "ss_kill s' = ss_kill ?s1" using run[of ?s1] calculation by blast
    ultimately show ?thesis
      by (intro exI[of _ free'] exI[of _ s']) (auto intro: converse_rtranclp_into_rtranclp)
  next
    case False
    then have k: "ss_chan s = Dropped \<and> ss_child s = Running \<longrightarrow> ss_kill s \<noteq> NoKill"
      using assms(1) st by (cases "ss_reaper s") (auto simp: session_ok_def)
    then show ?thesis
      using run[OF st] fin[OF st] assms(3) by (fastforce simp: live_def)
  qed
qed

section \<open>An example for the witnesses\<close>

definition capped_cfg :: GitConfig where
  "capped_cfg = \<lparr>git_binary = ''git'', upstream_auth_header = None, big_file_threshold = ''1m'', fetch_ttl = 50,
     max_wants = 2, max_upload_packs = 1, pack_threads = None, pack_window_memory = None\<rparr>"

definition pack_repo :: RepoRef where
  "pack_repo = \<lparr>name = ''g/r'', upstream_url = ''https://up/g/r'', cache_dir = ''/c/g/r''\<rparr>"

text \<open>A session whose client hung up while the request was being written.\<close>

definition gone_session :: session where
  "gone_session = (new_session pack_repo)\<lparr>ss_phase := Over None, ss_child := Running, ss_reaper := Selecting,
     ss_permit := True, ss_chan := Dropped\<rparr>"

definition gone_packs :: packs where
  "gone_packs = \<lparr>pk_free = Some 0, pk_sessions = [gone_session]\<rparr>"

lemma gone_reachable: "packs_step\<^sup>*\<^sup>* (new_packs capped_cfg) gone_packs"
proof -
  let ?P1 = "(new_packs capped_cfg)\<lparr>pk_sessions := [new_session pack_repo]\<rparr>"
  let ?s2 = "(new_session pack_repo)\<lparr>ss_phase := Writing 5, ss_child := Running, ss_reaper := Selecting, ss_permit := True\<rparr>"
  let ?P2 = "?P1\<lparr>pk_free := Some 0, pk_sessions := [?s2]\<rparr>"
  have n: "pk_sessions (new_packs capped_cfg) = []" "pk_free (new_packs capped_cfg) = Some 1"
    by (simp_all add: new_packs_def capped_cfg_def)
  have 1: "packs_step (new_packs capped_cfg) ?P1"
    using arrive[of "new_packs capped_cfg" pack_repo] n by simp
  have "session_step (Some 1) (new_session pack_repo) (Some 0) ?s2"
    by (rule start[of _ _ "Some 0" True 5 "Inr ()"])
      (simp_all add: new_session_def start_session_def numeral_eq_Suc)
  then have 2: "packs_step ?P1 ?P2" using progress[of 0 ?P1 "Some 0" ?s2] n by simp
  have "session_step (Some 0) ?s2 (Some 0) (?s2\<lparr>ss_phase := Over None, ss_chan := Dropped\<rparr>)"
    by (rule write_dropped[of _ 5]) (simp add: new_session_def)
  then have 3: "packs_step ?P2 gone_packs"
    using progress[of 0 ?P2 "Some 0" gone_session]
    by (simp add: gone_packs_def gone_session_def new_packs_def new_session_def)
  show ?thesis
    using converse_rtranclp_into_rtranclp[of packs_step, OF 1
        converse_rtranclp_into_rtranclp[of packs_step, OF 2 r_into_rtranclp[of packs_step, OF 3]]] .
qed

section \<open>Properties\<close>



text \<open>C16: A pack is killed only when its client has gone, and served packs are recorded once. In every
  reachable state a child that was killed belongs to a response that was dropped before its end; a
  response that reached its end has recorded its duration exactly once and its child is left alone; no
  session ever records twice.\<close>

theorem served_or_killed:
  assumes "packs_step\<^sup>*\<^sup>* (new_packs cfg) P" "s \<in> set (pk_sessions P)"
  shows "(ss_kill s \<noteq> NoKill \<longrightarrow> ss_chan s = Dropped) \<and>
    (ss_chan s = Sent \<longrightarrow> ss_kill s = NoKill \<and> served_once s) \<and>
    (ss_calls s = [] \<or> served_once s)"
proof -
  have ok: "session_ok (max_upload_packs cfg \<noteq> 0) s" using packs_session_ok[OF assms] .
  then have "phase_ok (ss_phase s) s" "ss_kill s \<noteq> NoKill \<longrightarrow> ss_chan s = Dropped" by (simp_all add: session_ok_def)
  then show ?thesis by (cases "ss_phase s") (auto split: if_splits)
qed

theorem served_or_killed_witness:
  "gone_session \<in> set (pk_sessions gone_packs) \<and> (ss_calls gone_session = [] \<or> served_once gone_session)"
proof -
  have "gone_session \<in> set (pk_sessions gone_packs)" by (simp add: gone_packs_def)
  then show ?thesis using served_or_killed[OF gone_reachable] by blast
qed



end
