(* ===== verification/Server.thy ===== *)
theory Server
  imports LfsStore UploadPack
begin

text \<open>
  \<^verbatim>\<open>src/src/server.rs\<close>: the handler of every request that is not an observability endpoint (\<open>handle_git\<close>) with the
  functions it calls, the readiness check, and the router. A request is what the HTTP library hands over:
  method, path, query, headers (names in lower case) and body. A response is its status, its headers and where its body comes from.

  The lemmas show that a request without the token reaches nothing, that pushes are refused, that no
  decoded body exceeds the limit, that a rewritten LFS link leads back to the object, and that whatever a
  request asks for, nothing that existed outside the cache root changes.
\<close>

section \<open>Requests and responses\<close>

text \<open>The body is what could be read of it, and whether reading failed. \<open>header_str\<close> is \<open>HeaderValue::to_str\<close>; \<open>gunzip\<close>
  yields the bytes a decoder produces from a body and whether it ends without an error; \<open>dir_len\<close> is the length
  the operating system reports for a directory; \<open>encode\<close> yields the bytes the encoder of the metrics package writes for what was recorded.\<close>

record request =
  rq_method :: string
  rq_path :: string
  rq_query :: "string option"
  rq_headers :: "(string \<times> string) list"
  rq_body :: "string \<times> bool"

datatype body =
    Text string
  | Rejection resolve_error
  | Bytes string
  | PackStream string
  | FileStream string
  | BrokenStream

record response =
  rs_status :: nat
  rs_headers :: "(string \<times> string) list"
  rs_body :: body

record srv_env = lfs_env +
  header_str :: "string \<Rightarrow> string option"
  gunzip :: "string \<Rightarrow> string \<times> bool"
  dir_len :: nat
  encode :: "io_event list \<Rightarrow> string"

record AppState =
  as_git :: GitConfig
  as_lfs :: LfsConfig
  as_upstream_base :: string
  as_cache_root :: string
  as_serve_token :: "string option"
  as_max_decoded_body :: u64
  as_max_concurrent :: nat

definition MAX_BODY :: nat where
  "MAX_BODY = 64 * 1024 * 1024"

definition UPLOAD_PACK :: string where
  "UPLOAD_PACK = ''git-upload-pack''"

definition RECEIVE_PACK :: string where
  "RECEIVE_PACK = ''git-receive-pack''"

definition LFS_BATCH_SUFFIX :: string where
  "LFS_BATCH_SUFFIX = ''/info/lfs/objects/batch''"

definition err :: "nat \<Rightarrow> string \<Rightarrow> response" where
  "err status msg = \<lparr>rs_status = status, rs_headers = [], rs_body = Text (msg @ ''\<newline>'')\<rparr>"

definition ok_response :: "(string \<times> string) list \<Rightarrow> body \<Rightarrow> response" where
  "ok_response hs b = \<lparr>rs_status = 200, rs_headers = hs, rs_body = b\<rparr>"

section \<open>Reading requests\<close>

definition header_get :: "('e) srv_env_scheme \<Rightarrow> string \<Rightarrow> (string \<times> string) list \<Rightarrow> string option" where
  "header_get E n hs = Option.bind (map_of hs n) (header_str E)"

text \<open>\<open>ct_eq\<close> compares lengths, then folds the differences of all bytes.\<close>

fun ct_diff :: "string \<Rightarrow> string \<Rightarrow> 8 word \<Rightarrow> 8 word" where
  "ct_diff (a # as) (b # bs) acc = ct_diff as bs (or acc (xor (word_of_nat (of_char a)) (word_of_nat (of_char b))))"
| "ct_diff _ _ acc = acc"

definition token_matches :: "string \<Rightarrow> string \<Rightarrow> bool" where
  "token_matches provided expected \<longleftrightarrow> length provided = length expected \<and> ct_diff provided expected 0 = 0"

definition check_auth :: "('e) srv_env_scheme \<Rightarrow> AppState \<Rightarrow> (string \<times> string) list \<Rightarrow> response option" where
  "check_auth E st hs =
     (case as_serve_token st of
        None \<Rightarrow> None
      | Some expected \<Rightarrow>
          (case Option.bind (header_get E ''authorization'' hs) (\<lambda>v. strip_prefix v ''Bearer '') of
             Some t \<Rightarrow> if token_matches t expected then None else Some (err 401 ''missing or invalid bearer token'')
           | None \<Rightarrow> Some (err 401 ''missing or invalid bearer token'')))"

text \<open>\<open>axum::body::to_bytes\<close> with its limit.\<close>

definition to_bytes :: "string \<times> bool \<Rightarrow> nat \<Rightarrow> string option" where
  "to_bytes b limit = (case b of (bytes, ok) \<Rightarrow> if ok \<and> length bytes \<le> limit then Some bytes else None)"

definition within_limit :: "string \<Rightarrow> u64 \<Rightarrow> io_error + string" where
  "within_limit body max_decoded = (if length body > unat max_decoded then Inl OtherIo else Inr body)"

text \<open>\<open>take(limit).read_to_end\<close>: reading stops at the limit, before any later error is seen.\<close>

definition read_limited :: "string \<times> bool \<Rightarrow> u64 \<Rightarrow> io_error + string" where
  "read_limited src limit =
     (case src of (bytes, ok) \<Rightarrow>
        if length bytes \<ge> unat limit then Inr (take (unat limit) bytes)
        else if ok then Inr bytes else Inl OtherIo)"

definition decode_body :: "('e) srv_env_scheme \<Rightarrow> string option \<Rightarrow> string \<Rightarrow> u64 \<Rightarrow> io_error + string" where
  "decode_body E content_encoding body max_decoded =
     (case map_option str_trim content_encoding of
        None \<Rightarrow> within_limit body max_decoded
      | Some enc \<Rightarrow>
          if eq_ignore_ascii_case enc ''gzip'' \<or> eq_ignore_ascii_case enc ''x-gzip'' then
            (case read_limited (gunzip E body) (max_decoded + 1) of
               Inl e \<Rightarrow> Inl e
             | Inr out \<Rightarrow> within_limit out max_decoded)
          else if enc = [] \<or> eq_ignore_ascii_case enc ''identity'' then within_limit body max_decoded
          else Inl OtherIo)"

definition is_lfs_upload :: "('e) lfs_env_scheme \<Rightarrow> string \<Rightarrow> bool" where
  "is_lfs_upload E body =
     (case parse_json E body of
        None \<Rightarrow> False
      | Some v \<Rightarrow> Option.bind (jget ''operation'' v) as_str = Some ''upload'')"

fun find_map :: "('a \<Rightarrow> 'b option) \<Rightarrow> 'a list \<Rightarrow> 'b option" where
  "find_map f [] = None"
| "find_map f (x # xs) = (case f x of None \<Rightarrow> find_map f xs | Some y \<Rightarrow> Some y)"

definition size_from_query :: "string \<Rightarrow> u64 option" where
  "size_from_query query =
     Option.bind (find_map (\<lambda>kv. strip_prefix kv ''size='') (split_on (CHR ''&'') query)) parse_u64"

text \<open>The first element of a comma-separated header.\<close>

definition first_of :: "('e) srv_env_scheme \<Rightarrow> string \<Rightarrow> string option" where
  "first_of E v = map_option (\<lambda>s. str_trim (hd (split_on (CHR '','') s))) (header_str E v)"

definition advertise_base :: "('e) srv_env_scheme \<Rightarrow> (string \<times> string) list \<Rightarrow> string" where
  "advertise_base E hs =
     (let scheme = (case Option.bind (map_of hs ''x-forwarded-proto'') (first_of E) of
                      None \<Rightarrow> ''http'' | Some s \<Rightarrow> if s = [] then ''http'' else s);
          host = (case Option.bind (case map_of hs ''x-forwarded-host'' of None \<Rightarrow> map_of hs ''host'' | Some v \<Rightarrow> Some v)
                         (first_of E) of
                    None \<Rightarrow> [] | Some s \<Rightarrow> s) in
      scheme @ ''://'' @ host)"

section \<open>Handlers\<close>

definition info_refs ::
  "('e) io_env_scheme \<Rightarrow> 'l lru_ops \<Rightarrow> AppState \<Rightarrow> string \<Rightarrow> string option \<Rightarrow> ('l, 'z) cache_world_scheme \<Rightarrow>
     response \<times> ('l, 'z) cache_world_scheme" where
  "info_refs E L st path git_protocol w =
     (case repo_name_from_path path ''/info/refs'' of
        None \<Rightarrow> (err 404 ''bad path'', metric (record_request InfoRefs Error ''-'') w)
      | Some nm \<Rightarrow>
     (case resolve nm (as_upstream_base st) (as_cache_root st) of
        Inl e \<Rightarrow> (\<lparr>rs_status = 400, rs_headers = [], rs_body = Rejection e\<rparr>, metric (record_request InfoRefs Error ''-'') w)
      | Inr repo \<Rightarrow>
     (case ensure_fresh E L (as_git st) repo True [] w of
        (Inl e, w1) \<Rightarrow> (err 502 ''upstream fetch failed'', metric (record_request InfoRefs UpstreamError ''-'') w1)
      | (Inr outcome, w1) \<Rightarrow>
     (case advertise_refs E (as_git st) repo git_protocol (metric (record_cache_outcome outcome) w1) of
        (Inl e, w2) \<Rightarrow> (err 500 ''advertise-refs failed'', metric (record_request InfoRefs Error ''-'') w2)
      | (Inr body, w2) \<Rightarrow>
          (ok_response [(''content-type'', ''application/x-git-upload-pack-advertisement''), (''cache-control'', ''no-cache'')]
             (Bytes body),
           metric (record_request InfoRefs Ok nm) w2)))))"

text \<open>\<open>upload_pack_rpc\<close> as the handler sees it: the child is spawned and the request written to it, or that fails. What
  the child then writes is streamed (theory \<open>UploadPack\<close> has the concurrent sessions).\<close>

definition upload_pack_rpc ::
  "('e) io_env_scheme \<Rightarrow> GitConfig \<Rightarrow> RepoRef \<Rightarrow> string option \<Rightarrow> string \<Rightarrow> ('z) io_world_scheme \<Rightarrow>
     (error + string) \<times> ('z) io_world_scheme" where
  "upload_pack_rpc E cfg repo git_protocol body w =
     (case io_context ''spawn git upload-pack'' (run_git E (upload_pack_cmd cfg repo git_protocol body)) w of
        (Inl e, w1) \<Rightarrow> (Inl e, w1)
      | (Inr out, w1) \<Rightarrow>
          (case stdin_write out of
             Inl e \<Rightarrow> (Inl (IoFail ''write upload-pack request'' e), w1)
           | Inr _ \<Rightarrow> (Inr (stdout out), w1)))"

definition upload_pack ::
  "('e) io_env_scheme \<Rightarrow> 'l lru_ops \<Rightarrow> AppState \<Rightarrow> string \<Rightarrow> string option \<Rightarrow> string \<Rightarrow>
     ('l, 'z) cache_world_scheme \<Rightarrow> response \<times> ('l, 'z) cache_world_scheme" where
  "upload_pack E L st path git_protocol body w =
     (case repo_name_from_path path (''/'' @ UPLOAD_PACK) of
        None \<Rightarrow> (err 404 ''bad path'', metric (record_request UploadPack Error ''-'') w)
      | Some nm \<Rightarrow>
     (case resolve nm (as_upstream_base st) (as_cache_root st) of
        Inl e \<Rightarrow> (\<lparr>rs_status = 400, rs_headers = [], rs_body = Rejection e\<rparr>, metric (record_request UploadPack Error ''-'') w)
      | Inr repo \<Rightarrow>
     (case ensure_fresh E L (as_git st) repo False body w of
        (Inl e, w1) \<Rightarrow> (err 502 ''upstream unavailable'', metric (record_request UploadPack UpstreamError ''-'') w1)
      | (Inr outcome, w1) \<Rightarrow>
     (case upload_pack_rpc E (as_git st) repo git_protocol body w1 of
        (Inl e, w2) \<Rightarrow> (err 500 ''upload-pack failed'', metric (record_request UploadPack Error ''-'') w2)
      | (Inr pack, w2) \<Rightarrow>
          (ok_response [(''content-type'', ''application/x-git-upload-pack-result''), (''cache-control'', ''no-cache'')]
             (PackStream pack),
           metric (record_request UploadPack Ok nm) w2)))))"

definition lfs_batch ::
  "('e) srv_env_scheme \<Rightarrow> AppState \<Rightarrow> string \<Rightarrow> (string \<times> string) list \<Rightarrow> string \<Rightarrow>
     ('l, 'z) lfs_world_scheme \<Rightarrow> response \<times> ('l, 'z) lfs_world_scheme" where
  "lfs_batch E st path headers body w =
     (case lfs_batch_repo path of
        None \<Rightarrow> (err 404 ''bad lfs batch path'', metric (record_request LfsBatch Error ''-'') w)
      | Some nm \<Rightarrow>
          if is_lfs_upload E body
          then (err 403 ''read-only proxy: lfs upload is not allowed'', metric (record_request LfsBatch Rejected ''-'') w)
          else
            (case batch E (as_lfs st) nm body (advertise_base E headers) w of
               (Inr json, w1) \<Rightarrow>
                 (ok_response [(''content-type'', LFS_CONTENT_TYPE), (''cache-control'', ''no-cache'')] (Bytes json),
                  metric (record_request LfsBatch Ok nm) w1)
             | (Inl e, w1) \<Rightarrow>
                 (err 502 ''upstream lfs batch failed'', metric (record_request LfsBatch UpstreamError ''-'') w1)))"

text \<open>A directory can be opened like a file; reading from it fails later.\<close>

definition lfs_file_response :: "('e) srv_env_scheme \<Rightarrow> fs \<Rightarrow> string \<Rightarrow> io_error + response" where
  "lfs_file_response E f path =
     (let headers = (\<lambda>n. [(''content-type'', ''application/octet-stream''), (''content-length'', show_dec n)]) in
      case fs_stat f (components path) of
        Inl e \<Rightarrow> Inl e
      | Inr Dir \<Rightarrow> Inr (ok_response (headers (dir_len E)) BrokenStream)
      | Inr (File bytes t) \<Rightarrow> Inr (ok_response (headers (length bytes)) (FileStream bytes)))"

definition lfs_object ::
  "('e) srv_env_scheme \<Rightarrow> 'l lru_ops \<Rightarrow> AppState \<Rightarrow> string \<Rightarrow> string \<Rightarrow> string \<Rightarrow>
     (('l, 'z) lfs_world_scheme \<Rightarrow> ('l, 'z) lfs_world_scheme) \<Rightarrow>
     ('l, 'z) lfs_world_scheme \<Rightarrow> response \<times> ('l, 'z) lfs_world_scheme" where
  "lfs_object E L st repo_name oid query others w =
     (case ensure_object E L (as_lfs st) repo_name oid (size_from_query query) others w of
        (Inr (path, outcome), w1) \<Rightarrow>
          let w2 = metric (record_lfs (case outcome of OutHit \<Rightarrow> Hit | OutMiss \<Rightarrow> Miss)) w1 in
          (case lfs_file_response E (w_fs w2) path of
             Inr resp \<Rightarrow> (resp, metric (record_request LfsObject Ok ''-'') w2)
           | Inl e \<Rightarrow> (err 500 ''serve lfs object failed'', metric (record_request LfsObject Error ''-'') w2))
      | (Inl e, w1) \<Rightarrow>
          (err 502 ''upstream lfs object fetch failed'',
           metric (record_lfs LfsError @ record_request LfsObject UpstreamError ''-'') w1))"

section \<open>Dispatch\<close>

definition handle_git ::
  "('e) srv_env_scheme \<Rightarrow> 'l lru_ops \<Rightarrow> AppState \<Rightarrow> request \<Rightarrow>
     (('l, 'z) lfs_world_scheme \<Rightarrow> ('l, 'z) lfs_world_scheme) \<Rightarrow>
     ('l, 'z) lfs_world_scheme \<Rightarrow> response \<times> ('l, 'z) lfs_world_scheme" where
  "handle_git E L st req others w =
     (let path = rq_path req;
          query = (case rq_query req of None \<Rightarrow> [] | Some q \<Rightarrow> q);
          git_protocol = header_get E ''git-protocol'' (rq_headers req) in
      case check_auth E st (rq_headers req) of
        Some resp \<Rightarrow> (resp, metric (record_request Auth Unauthorized ''-'') w)
      | None \<Rightarrow>
          if ends_with path (''/'' @ RECEIVE_PACK) \<or> contains query (''service='' @ RECEIVE_PACK)
          then (err 403 ''read-only proxy: pushes are not allowed'', metric (record_request ReceivePack Rejected ''-'') w)
          else if rq_method req = ''GET'' \<and> ends_with path ''/info/refs''
          then (if \<not> contains query (''service='' @ UPLOAD_PACK)
                then (err 400 ''only smart-http git-upload-pack is supported'', metric (record_request InfoRefs Error ''-'') w)
                else info_refs E L st path git_protocol w)
          else if rq_method req = ''POST'' \<and> ends_with path (''/'' @ UPLOAD_PACK)
          then (case to_bytes (rq_body req) MAX_BODY of
                  None \<Rightarrow> (err 400 ''failed to read request body'', w)
                | Some body \<Rightarrow>
                    (case decode_body E (header_get E ''content-encoding'' (rq_headers req)) body (as_max_decoded_body st) of
                       Inl e \<Rightarrow> (err 400 ''failed to decode request body'', w)
                     | Inr body' \<Rightarrow> upload_pack E L st path git_protocol body' w))
          else if rq_method req = ''POST'' \<and> ends_with path LFS_BATCH_SUFFIX
          then (case to_bytes (rq_body req) MAX_BODY of
                  None \<Rightarrow> (err 400 ''failed to read request body'', w)
                | Some body \<Rightarrow> lfs_batch E st path (rq_headers req) body w)
          else (case (if rq_method req = ''GET'' then lfs_object_from_path path else None) of
                  Some (repo_name, oid) \<Rightarrow> lfs_object E L st repo_name oid query others w
                | None \<Rightarrow> (err 404 ''not a git smart-http endpoint'', w)))"

section \<open>Readiness\<close>

definition cache_writable :: "('e) io_env_scheme \<Rightarrow> string \<Rightarrow> ('z) io_world_scheme \<Rightarrow> (io_error + unit) \<times> ('z) io_world_scheme" where
  "cache_writable E root w =
     (case io_create_dir_all E root w of
        (Inl e, w1) \<Rightarrow> (Inl e, w1)
      | (Inr _, w1) \<Rightarrow>
          let probe = path_join root ''.readyz-probe'' in
          (case syscall E (fs_write (components probe) [] (clock E (w_tick w1))) w1 of
             (Inl e, w2) \<Rightarrow> (Inl e, w2)
           | (Inr _, w2) \<Rightarrow> (Inr (), io_ignore (io_remove_file E probe) w2)))"

definition readyz :: "('e) io_env_scheme \<Rightarrow> AppState \<Rightarrow> ('z) io_world_scheme \<Rightarrow> response \<times> ('z) io_world_scheme" where
  "readyz E st w =
     (case cache_writable E (as_cache_root st) w of
        (Inr _, w1) \<Rightarrow> (ok_response [] (Text ''ok''), w1)
      | (Inl e, w1) \<Rightarrow> (err 503 ''cache root not writable'', w1))"

section \<open>The router\<close>

text \<open>The observability routes come first and take \<open>GET\<close> (and \<open>HEAD\<close>, whose body the library drops); everything else
  goes to \<open>handle_git\<close>.\<close>

definition gather :: "('e) srv_env_scheme \<Rightarrow> ('z) io_world_scheme \<Rightarrow> string" where
  "gather E w = from_utf8_lossy (encode E (w_trace w))"

definition metrics_handler :: "('e) srv_env_scheme \<Rightarrow> ('z) io_world_scheme \<Rightarrow> response" where
  "metrics_handler E w = ok_response [(''content-type'', ''text/plain; version=0.0.4'')] (Text (gather E w))"

definition router ::
  "('e) srv_env_scheme \<Rightarrow> 'l lru_ops \<Rightarrow> AppState \<Rightarrow> request \<Rightarrow>
     (('l, 'z) lfs_world_scheme \<Rightarrow> ('l, 'z) lfs_world_scheme) \<Rightarrow>
     ('l, 'z) lfs_world_scheme \<Rightarrow> response \<times> ('l, 'z) lfs_world_scheme" where
  "router E L st req others w =
     (if rq_path req \<in> {''/healthz'', ''/readyz'', ''/metrics''} then
        if rq_method req \<notin> {''GET'', ''HEAD''} then (\<lparr>rs_status = 405, rs_headers = [(''allow'', ''GET,HEAD'')], rs_body = Text []\<rparr>, w)
        else
          (case (if rq_path req = ''/healthz'' then (ok_response [] (Text ''ok''), w)
                 else if rq_path req = ''/readyz'' then readyz E st w
                 else (metrics_handler E w, w)) of
             (resp, w1) \<Rightarrow> (if rq_method req = ''HEAD'' then resp\<lparr>rs_body := Text []\<rparr> else resp, w1))
      else handle_git E L st req others w)"

section \<open>Tokens\<close>

lemma word_char_inject: "(word_of_nat (of_char a) :: 8 word) = word_of_nat (of_char b) \<longleftrightarrow> a = b"
proof
  assume "(word_of_nat (of_char a) :: 8 word) = word_of_nat (of_char b)"
  then have "unat (word_of_nat (of_char a) :: 8 word) = unat (word_of_nat (of_char b) :: 8 word)" by simp
  then have "(of_char a :: nat) mod 256 = of_char b mod 256" by (simp add: unat_of_nat)
  then show "a = b" by simp
qed simp

lemma word_bits_zero: "or x y = 0 \<longleftrightarrow> x = 0 \<and> y = 0" "xor x y = 0 \<longleftrightarrow> x = y" for x y :: "8 word"
  by (auto simp: bit_eq_iff bit_or_iff bit_xor_iff)

lemma ct_diff_zero: "length as = length bs \<Longrightarrow> ct_diff as bs acc = 0 \<longleftrightarrow> acc = 0 \<and> as = bs"
proof (induction as bs acc rule: ct_diff.induct)
  case (1 a as b bs acc)
  then show ?case by (auto simp: word_char_inject word_bits_zero)
qed simp_all

lemma token_matches_iff: "token_matches provided expected \<longleftrightarrow> provided = expected"
  using ct_diff_zero[of provided expected 0] by (auto simp: token_matches_def)

lemma check_auth_None:
  "check_auth E st hs = None \<longleftrightarrow>
     (case as_serve_token st of None \<Rightarrow> True | Some t \<Rightarrow> header_get E ''authorization'' hs = Some (''Bearer '' @ t))"
proof (cases "as_serve_token st")
  case (Some t)
  show ?thesis
  proof (cases "header_get E ''authorization'' hs")
    case None
    then show ?thesis using Some by (simp add: check_auth_def)
  next
    case v: (Some v)
    have "strip_prefix v ''Bearer '' = Some t \<longleftrightarrow> v = ''Bearer '' @ t" by (rule strip_prefix_Some_iff)
    then show ?thesis
      using Some v by (cases "strip_prefix v ''Bearer ''") (auto simp: check_auth_def token_matches_iff)
  qed
qed (simp add: check_auth_def)

section \<open>Decoded bodies\<close>

lemma within_limit_Inr: "within_limit b m = Inr out \<longleftrightarrow> out = b \<and> length b \<le> unat m"
  by (auto simp: within_limit_def)

lemma decode_body_limit:
  assumes "decode_body E enc body m = Inr out"
  shows "length out \<le> unat m"
  using assms by (auto simp: decode_body_def within_limit_Inr split: option.splits if_splits sum.splits)

definition is_gzip :: "string \<Rightarrow> bool" where
  "is_gzip enc \<longleftrightarrow> eq_ignore_ascii_case (str_trim enc) ''gzip'' \<or> eq_ignore_ascii_case (str_trim enc) ''x-gzip''"

lemma decode_body_gzip:
  assumes "is_gzip enc" "unat m + 1 < 2 ^ 64"
  shows "decode_body E (Some enc) body m =
    (case gunzip E body of (bytes, ok) \<Rightarrow> if ok \<and> length bytes \<le> unat m then Inr bytes else Inl OtherIo)"
proof -
  have l: "unat (m + 1) = unat m + 1" using assms(2) unat_add_u64[of m 1] by simp
  obtain bytes ok where g: "gunzip E body = (bytes, ok)" by force
  show ?thesis
  proof (cases "length bytes \<le> unat m")
    case True
    then show ?thesis using assms(1) g l by (simp add: decode_body_def is_gzip_def read_limited_def within_limit_def)
  next
    case False
    then show ?thesis using assms(1) g l by (simp add: decode_body_def is_gzip_def read_limited_def within_limit_def)
  qed
qed

section \<open>Links to objects\<close>

lemma find_map_single: "find_map f [x] = f x"
  by (simp split: option.split)

lemma show_dec_no_amp: "CHR ''&'' \<notin> set (show_dec n)"
  using show_dec_chars[of "CHR ''&''" n] by (auto simp: digit_val_def)

lemma size_from_query_show: "size_from_query (''size='' @ show_dec (unat n)) = Some n"
proof -
  have "split_on (CHR ''&'') (''size='' @ show_dec (unat n)) = [''size='' @ show_dec (unat n)]"
    using show_dec_no_amp[of "unat n"] by (intro split_on_no_sep) simp
  moreover have "strip_prefix (''size='' @ show_dec (unat n)) ''size='' = Some (show_dec (unat n))"
    by (simp only: strip_prefix_Some_iff)
  moreover have "parse_u64 (show_dec (unat n)) = Some n" using parse_u64_show_dec[of "unat n"] by simp
  ultimately show ?thesis unfolding size_from_query_def by (simp only: find_map_single Option.bind.simps)
qed

section \<open>Where a request goes\<close>

text \<open>Serving a mirror does not change it.\<close>

definition git_serves :: "('e) io_env_scheme \<Rightarrow> bool" where
  "git_serves E \<longleftrightarrow> (\<forall>n cfg repo proto body f out f'.
     git E n (advertise_cmd cfg repo proto) f = (out, f') \<or> git E n (upload_pack_cmd cfg repo proto body) f = (out, f') \<longrightarrow>
     f' = f)"

lemma served_run_git:
  assumes "git_serves E" "run_git E c w = (r, w')"
    "c = advertise_cmd cfg repo proto \<or> c = upload_pack_cmd cfg repo proto body"
  shows "w_fs w' = w_fs w"
  using assms by (auto simp: run_git_def git_serves_def split: if_splits prod.splits)

lemma advertise_refs_files:
  assumes "git_serves E" "advertise_refs E cfg repo proto w = (r, w')"
  shows "w_fs w' = w_fs w"
proof -
  obtain r1 w1 where g: "run_git E (advertise_cmd cfg repo proto) w = (r1, w1)" by force
  then have f: "w_fs w1 = w_fs w" using served_run_git[OF assms(1) g] by blast
  show ?thesis
    using assms(2) g f
    by (cases r1) (auto simp: advertise_refs_def io_context_def Let_def split: sum.splits prod.splits if_splits)
qed

lemma upload_pack_rpc_files:
  assumes "git_serves E" "upload_pack_rpc E cfg repo proto body w = (r, w')"
  shows "w_fs w' = w_fs w"
proof -
  obtain r1 w1 where g: "run_git E (upload_pack_cmd cfg repo proto body) w = (r1, w1)" by force
  then have f: "w_fs w1 = w_fs w" using served_run_git[OF assms(1) g] by blast
  show ?thesis
    using assms(2) g f by (cases r1) (auto simp: upload_pack_rpc_def io_context_def split: sum.splits)
qed

lemma keeps_repo_trees:
  assumes "resolve n up root = Inr repo" "keeps_outside (repo_trees repo) f g"
  shows "keeps_outside [components root] f g"
proof -
  have c: "components (cache_dir repo) = components root @ map Normal (split_on (CHR ''/'') n)"
    using components_cache_dir[OF assms(1)] .
  have s: "components (staging_dir (cache_dir repo)) = components root @ map Normal (split_on (CHR ''/'') (n @ INCOMING_SUFFIX))"
    using components_suffixed_dir[OF assms(1), of INCOMING_SUFFIX] by (simp add: staging_dir_def reserved_suffix_def)
  have "\<not> prefix (components root @ xs) q" if "\<not> prefix (components root) q" for xs q
    using that by (auto dest: append_prefixD)
  then show ?thesis using assms(2) c s unfolding keeps_outside_def by simp
qed

text \<open>A request for a mirror touches no files, or those of one accepted repository.\<close>

definition touches_mirror :: "AppState \<Rightarrow> fs \<Rightarrow> fs \<Rightarrow> bool" where
  "touches_mirror st f f' \<longleftrightarrow> f' = f \<or>
     (\<exists>n repo. resolve n (as_upstream_base st) (as_cache_root st) = Inr repo \<and> keeps_outside (repo_trees repo) f f')"

lemma touches_mirror_refl [simp]: "touches_mirror st f f"
  by (simp add: touches_mirror_def)

lemma touches_mirrorI:
  assumes "git_confined E" "resolve n (as_upstream_base st) (as_cache_root st) = Inr repo"
    "ensure_fresh E L (as_git st) repo want_fetch body w = (r, w')"
  shows "touches_mirror st (w_fs w) (w_fs w')"
  using ensure_fresh_files(1)[OF assms(1,3)] assms(2) unfolding touches_mirror_def by blast

lemma info_refs_files:
  assumes "git_confined E" "git_serves E" "info_refs E L st path proto w = (resp, w')"
  shows "touches_mirror st (w_fs w) (w_fs w')"
  using assms(3)
  by (auto simp: info_refs_def dest!: advertise_refs_files[OF assms(2)] intro: touches_mirrorI[OF assms(1)]
      split: option.splits sum.splits prod.splits)

lemma upload_pack_files:
  assumes "git_confined E" "git_serves E" "upload_pack E L st path proto body w = (resp, w')"
  shows "touches_mirror st (w_fs w) (w_fs w')"
  using assms(3)
  by (auto simp: upload_pack_def dest!: upload_pack_rpc_files[OF assms(2)] intro: touches_mirrorI[OF assms(1)]
      split: option.splits sum.splits prod.splits)

lemma touches_mirror_outside: "touches_mirror st f f' \<Longrightarrow> keeps_outside [components (as_cache_root st)] f f'"
  using keeps_repo_trees by (auto simp: touches_mirror_def)

lemma lfs_batch_files: "lfs_batch E st path hs body w = (resp, w') \<Longrightarrow> w_fs w' = w_fs w"
proof -
  assume a: "lfs_batch E st path hs body w = (resp, w')"
  have b: "w_fs w1 = w_fs w" if "batch E cfg nm body base w = (r, w1)" for cfg nm base r w1
    using that post_batch_frame
    by (fastforce simp: batch_def with_context_def split: prod.splits sum.splits)
  show ?thesis
    using a b by (auto simp: lfs_batch_def split: option.splits if_splits prod.splits sum.splits)
qed

lemma lfs_object_outside:
  assumes "lfs_object E L st repo oid query others w = (resp, w')" "valid_lfs_oid oid"
    "cache_root (as_lfs st) = as_cache_root st"
    "keeps_outside [components (as_cache_root st)] (w_fs w) (w_fs (others (lfs_slot oid w)))"
  shows "keeps_outside [components (as_cache_root st)] (w_fs w) (w_fs w')"
proof -
  obtain r w1 where e: "ensure_object E L (as_lfs st) repo oid (size_from_query query) others w = (r, w1)" by force
  have "keeps_outside [components (as_cache_root st)] (w_fs w) (w_fs w1)"
    using ensure_object_outside[OF assms(2) e] assms(3,4) by simp
  moreover have "w_fs w' = w_fs w1"
    using assms(1) e by (auto simp: lfs_object_def Let_def split: sum.splits)
  ultimately show ?thesis by simp
qed

text \<open>The body of an upload-pack request: read and decoded within its limits, or refused.\<close>

lemma read_pack_cases:
  assumes "(case to_bytes body MAX_BODY of
      None \<Rightarrow> (err 400 m, w)
    | Some b \<Rightarrow> (case decode_body E enc b limit of Inl e \<Rightarrow> (err 400 m', w) | Inr d \<Rightarrow> k d)) = (resp, w')"
  obtains (refused) "w' = w" "rs_status resp = 400"
  | (decoded) d where "k d = (resp, w')" "length d \<le> unat limit"
proof (cases "to_bytes body MAX_BODY")
  case None
  then show ?thesis using assms refused by (auto simp: err_def)
next
  case (Some b)
  then show ?thesis
    using assms refused decoded decode_body_limit[of E enc b limit]
    by (cases "decode_body E enc b limit") (auto simp: err_def)
qed

text \<open>The ways \<open>handle_git\<close> goes.\<close>

lemma handle_git_cases:
  assumes "handle_git E L st req others w = (resp, w')"
  obtains (answered) ms where "w' = metric ms w" "rs_status resp \<in> {400, 401, 403, 404}"
      "ms = [] \<or> (\<exists>k r. ms = record_request k r ''-'')"
  | (refs) "info_refs E L st (rq_path req) (header_get E ''git-protocol'' (rq_headers req)) w = (resp, w')"
  | (pack) body where "upload_pack E L st (rq_path req) (header_get E ''git-protocol'' (rq_headers req)) body w = (resp, w')"
      "length body \<le> unat (as_max_decoded_body st)"
  | (batch) body where "lfs_batch E st (rq_path req) (rq_headers req) body w = (resp, w')"
  | (object) repo oid query where "lfs_object_from_path (rq_path req) = Some (repo, oid)"
      "lfs_object E L st repo oid query others w = (resp, w')"
proof -
  have m0: "w = metric [] w" by (simp add: metric_def emit_def)
  have st: "rs_status (err n msg) = n" for n msg by (simp add: err_def)
  show ?thesis
  proof (cases "check_auth E st (rq_headers req)")
    case (Some r)
    then have "rs_status r = 401" by (auto simp: check_auth_def st split: option.splits if_splits)
    then show ?thesis using Some answered assms by (auto simp: handle_git_def Let_def)
  next
    case None
    note h = assms[unfolded handle_git_def Let_def None option.case]
    let ?query = "case rq_query req of None \<Rightarrow> [] | Some q \<Rightarrow> q"
    let ?push = "ends_with (rq_path req) (''/'' @ RECEIVE_PACK) \<or> contains ?query (''service='' @ RECEIVE_PACK)"
    let ?refs = "rq_method req = ''GET'' \<and> ends_with (rq_path req) ''/info/refs''"
    let ?pack = "rq_method req = ''POST'' \<and> ends_with (rq_path req) (''/'' @ UPLOAD_PACK)"
    let ?batch = "rq_method req = ''POST'' \<and> ends_with (rq_path req) LFS_BATCH_SUFFIX"
    consider "?push" | "\<not> ?push" "?refs" | "\<not> ?push" "\<not> ?refs" "?pack" | "\<not> ?push" "\<not> ?refs" "\<not> ?pack" "?batch"
      | "\<not> ?push" "\<not> ?refs" "\<not> ?pack" "\<not> ?batch" by argo
    then show ?thesis
    proof cases
      case 1
      then show ?thesis using h[unfolded if_P[OF 1]] answered st by auto
    next
      case 2
      then show ?thesis using h[unfolded if_not_P[OF 2(1)] if_P[OF 2(2)]] answered refs st by (auto split: if_splits)
    next
      case 3
      from h[unfolded if_not_P[OF 3(1)] if_not_P[OF 3(2)] if_P[OF 3(3)]] show ?thesis
      proof (cases rule: read_pack_cases)
        case refused
        then show ?thesis using answered[of "[]"] m0 by simp
      next
        case (decoded d)
        then show ?thesis by (rule pack)
      qed
    next
      case 4
      note h4 = h[unfolded if_not_P[OF 4(1)] if_not_P[OF 4(2)] if_not_P[OF 4(3)] if_P[OF 4(4)]]
      show ?thesis
        using h4 answered[of "[]"] m0 st batch by (cases "to_bytes (rq_body req) MAX_BODY") auto
    next
      case 5
      note h5 = h[unfolded if_not_P[OF 5(1)] if_not_P[OF 5(2)] if_not_P[OF 5(3)] if_not_P[OF 5(4)]]
      show ?thesis
      proof (cases "if rq_method req = ''GET'' then lfs_object_from_path (rq_path req) else None")
        case None
        then show ?thesis using h5 answered[of "[]"] m0 st by auto
      next
        case (Some x)
        then show ?thesis using h5 object by (cases x) (auto split: if_splits)
      qed
    qed
  qed
qed

lemma handle_git_object:
  assumes "check_auth E st (rq_headers req) = None" "rq_method req = ''GET''" "rq_query req = Some query"
    "lfs_object_from_path (rq_path req) = Some (repo, oid)" "\<not> contains query (''service='' @ RECEIVE_PACK)"
  shows "handle_git E L st req others w = lfs_object E L st repo oid query others w"
proof -
  have v: "valid_lfs_oid oid" using assms(4) by (simp add: lfs_object_from_path_iff Let_def)
  have last_ok: "last (rq_path req) \<in> set oid"
  proof -
    have "trim_start_matches (rq_path req) (CHR ''/'') = repo @ LFS_MARKER @ oid"
      using assms(4) by (simp add: lfs_object_from_path_iff Let_def)
    then obtain a where p: "rq_path req = a @ oid"
      unfolding trim_start_matches_def by (metis append.assoc takeWhile_dropWhile_id)
    have "oid \<noteq> []" using v by (auto simp: valid_lfs_oid_def)
    then show ?thesis using p by simp
  qed
  then have "is_ascii_digit (last (rq_path req)) \<or> in_range 97 102 (last (rq_path req))"
    using v by (auto simp: valid_lfs_oid_def list_all_iff)
  then have no: "\<not> ends_with (rq_path req) (x @ [CHR ''k''])" "\<not> ends_with (rq_path req) (x @ [CHR ''s''])" for x
    by (auto simp: ends_with_iff is_ascii_digit_def in_range_def)
  have "\<not> ends_with (rq_path req) (''/'' @ RECEIVE_PACK)" "\<not> ends_with (rq_path req) ''/info/refs''"
    using no(1)[of "''/git-receive-pac''"] no(2)[of "''/info/ref''"] by (simp_all add: RECEIVE_PACK_def)
  then show ?thesis using assms by (simp add: handle_git_def Let_def)
qed

section \<open>An example for the witnesses\<close>

definition sample_srv_env :: srv_env where
  "sample_srv_env = lfs_env.extend sample_lfs_env
     (srv_env.fields Some (\<lambda>b. (b @ b, True)) 4096 (\<lambda>_. ''metrics''))"

definition sample_state :: AppState where
  "sample_state = \<lparr>as_git = sample_cfg, as_lfs = sample_lfs_cfg, as_upstream_base = ''https://up'', as_cache_root = ''/c'',
     as_serve_token = Some ''tok'', as_max_decoded_body = 4, as_max_concurrent = 64\<rparr>"

definition sample_get :: "string \<Rightarrow> string \<Rightarrow> request" where
  "sample_get path query = \<lparr>rq_method = ''GET'', rq_path = path, rq_query = Some query,
     rq_headers = [(''authorization'', ''Bearer tok'')], rq_body = ([], True)\<rparr>"

lemma sample_git_field: "git sample_srv_env = sample_git"
  by (simp add: sample_srv_env_def sample_lfs_env_def lfs_env.defs srv_env.defs)

lemma sample_srv_confined: "git_confined sample_srv_env"
  using sample_confined by (simp add: git_confined_def sample_git_field sample_env_def)

lemma sample_srv_serves: "git_serves sample_srv_env"
proof -
  have "take 1 (args (advertise_cmd cfg repo proto)) = [''-c'']" "take 1 (args (upload_pack_cmd cfg repo proto body)) = [''-c'']"
    for cfg repo proto body
    by (simp_all add: advertise_cmd_def upload_pack_cmd_def add_args_def local_cmd_def command_new_def)
  then have "snd (sample_git n (advertise_cmd cfg repo proto) f) = f"
    "snd (sample_git n (upload_pack_cmd cfg repo proto body) f) = f" for n cfg repo proto body f
    by (simp_all add: sample_git_def)
  then show ?thesis unfolding git_serves_def sample_git_field by (metis snd_conv)
qed

lemma sample_auth: "check_auth sample_srv_env sample_state (rq_headers (sample_get path query)) = None"
  by (simp add: check_auth_None sample_state_def sample_get_def header_get_def sample_srv_env_def sample_lfs_env_def
      lfs_env.defs srv_env.defs)

section \<open>Properties\<close>

text \<open>C2: Whatever a client sends, with or without credentials, nothing that existed outside the cache root
  changes, and at most directories appear there (the way to the cache root). This holds for every method, path, query, set of headers and body, whatever the upstream and
  the file system answer, as long as \<open>git\<close> itself writes only to the directory it works in and only reads
  when it serves.\<close>

theorem handle_git_confined:
  assumes "git_confined E" "git_serves E" "cache_root (as_lfs st) = as_cache_root st"
    "\<And>u. keeps_outside [components (as_cache_root st)] (w_fs u) (w_fs (others u))"
    "handle_git E L st req others w = (resp, w')"
    "\<not> prefix (components (as_cache_root st)) q"
  shows "fs_lookup (w_fs w') q = fs_lookup (w_fs w) q \<or> fs_lookup (w_fs w) q = None \<and> fs_lookup (w_fs w') q = Some Dir"
proof -
  have "keeps_outside [components (as_cache_root st)] (w_fs w) (w_fs w')"
    using assms(5)
  proof (cases rule: handle_git_cases)
    case (answered ms)
    then show ?thesis by simp
  next
    case refs
    then show ?thesis using info_refs_files[OF assms(1,2)] touches_mirror_outside by blast
  next
    case (pack body)
    then show ?thesis using upload_pack_files[OF assms(1,2)] touches_mirror_outside by blast
  next
    case (batch body)
    then show ?thesis using lfs_batch_files by fastforce
  next
    case (object repo oid query)
    have "valid_lfs_oid oid" using object(1) by (simp add: lfs_object_from_path_iff Let_def)
    then show ?thesis using lfs_object_outside[OF object(2) _ assms(3)] assms(4)[of "lfs_slot oid w"] by simp
  qed
  then show ?thesis using assms(6) by (simp add: keeps_outside_def kept_at_def)
qed

theorem handle_git_confined_witness:
  "fs_lookup (w_fs (snd (handle_git sample_srv_env list_lru sample_state
      (sample_get ''/g/r/info/refs'' ''service=git-upload-pack'') id sample_lfs_world))) [RootDir] = Some Dir"
proof -
  have "cache_root (as_lfs sample_state) = as_cache_root sample_state"
    by (simp add: sample_state_def sample_lfs_cfg_def)
  moreover have "\<not> prefix (components (as_cache_root sample_state)) [RootDir]" by code_simp
  moreover have "fs_lookup (w_fs sample_lfs_world) [RootDir] = Some Dir" by (simp add: fs_lookup_def sample_lfs_world_def)
  ultimately show ?thesis
    using handle_git_confined[OF sample_srv_confined sample_srv_serves, of sample_state id list_lru,
        OF _ _ prod.collapse[symmetric], of "[RootDir]"] by (metis id_apply keeps_outside_refl option.distinct(1))
qed

text \<open>C3: Without the token nothing is reached. When a serve token is configured, every request whose
  authorization is not exactly \<open>Bearer\<close> and that token is answered with 401; no process is started, no
  file changes, nothing is sent upstream, and the only effect is the count of the refusal. With the token the
  check lets the request pass.\<close>

theorem token_required:
  assumes "as_serve_token st = Some token"
  shows "(case header_get E ''authorization'' (rq_headers req) of
      Some v \<Rightarrow> v \<noteq> ''Bearer '' @ token | None \<Rightarrow> True) = (check_auth E st (rq_headers req) \<noteq> None) \<and>
    (check_auth E st (rq_headers req) \<noteq> None \<longrightarrow>
       handle_git E L st req others w =
         (err 401 ''missing or invalid bearer token'', metric (record_request Auth Unauthorized ''-'') w))"
proof (intro conjI impI)
  show "(case header_get E ''authorization'' (rq_headers req) of
      Some v \<Rightarrow> v \<noteq> ''Bearer '' @ token | None \<Rightarrow> True) = (check_auth E st (rq_headers req) \<noteq> None)"
    using check_auth_None[of E st "rq_headers req"] assms by (auto split: option.splits)
  assume "check_auth E st (rq_headers req) \<noteq> None"
  then have "check_auth E st (rq_headers req) = Some (err 401 ''missing or invalid bearer token'')"
    by (auto simp: check_auth_def split: option.splits if_splits)
  then show "handle_git E L st req others w =
      (err 401 ''missing or invalid bearer token'', metric (record_request Auth Unauthorized ''-'') w)"
    by (simp add: handle_git_def Let_def)
qed

theorem token_required_witness:
  "handle_git sample_srv_env list_lru sample_state
      (sample_get ''/g/r/info/refs'' ''service=git-upload-pack''\<lparr>rq_headers := [(''authorization'', ''Bearer to'')]\<rparr>)
      id sample_lfs_world =
    (err 401 ''missing or invalid bearer token'', metric (record_request Auth Unauthorized ''-'') sample_lfs_world)"
proof -
  let ?req = "sample_get ''/g/r/info/refs'' ''service=git-upload-pack''\<lparr>rq_headers := [(''authorization'', ''Bearer to'')]\<rparr>"
  have t: "as_serve_token sample_state = Some ''tok''" by (simp add: sample_state_def)
  have "header_get sample_srv_env ''authorization'' (rq_headers ?req) = Some ''Bearer to''"
    by (simp add: header_get_def sample_srv_env_def sample_lfs_env_def lfs_env.defs srv_env.defs)
  then show ?thesis using token_required[OF t, of sample_srv_env ?req list_lru id sample_lfs_world] by simp
qed


text \<open>C4: Pushes are refused. A request for \<open>git-receive-pack\<close>, whether by its path or by its service parameter, and
  with whatever method and body, is answered with 401 or 403 and has no effect but being counted.\<close>

theorem push_refused:
  assumes "ends_with (rq_path req) (''/'' @ RECEIVE_PACK) \<or>
    (\<exists>query. rq_query req = Some query \<and> contains query (''service='' @ RECEIVE_PACK))"
  shows "\<exists>resp calls. handle_git E L st req others w = (resp, metric calls w) \<and>
    rs_status resp = (if check_auth E st (rq_headers req) = None then 403 else 401)"
proof (cases "check_auth E st (rq_headers req)")
  case None
  then show ?thesis using assms by (auto simp: handle_git_def Let_def err_def)
next
  case (Some r)
  then have "rs_status r = 401" by (auto simp: check_auth_def err_def split: option.splits if_splits)
  then show ?thesis using Some by (auto simp: handle_git_def Let_def)
qed

theorem push_refused_witness:
  "\<exists>resp calls. handle_git sample_srv_env list_lru sample_state (sample_get ''/g/r/git-receive-pack'' []) id sample_lfs_world =
     (resp, metric calls sample_lfs_world) \<and> rs_status resp = 403"
proof -
  have "ends_with (rq_path (sample_get ''/g/r/git-receive-pack'' [])) (''/'' @ RECEIVE_PACK)" by code_simp
  then show ?thesis
    using push_refused[of "sample_get ''/g/r/git-receive-pack'' []" sample_srv_env list_lru sample_state id
        sample_lfs_world] sample_auth[of "''/g/r/git-receive-pack''" "[]"] by auto
qed

text \<open>C39: Decoded bodies respect the limit, and are what was sent. As long as the limit is below the largest
  64-bit number, a body without an encoding passes unchanged if it is within the limit, a gzipped body yields
  exactly what the decoder produces if that is complete and within the limit, and everything else is refused.\<close>

theorem decode_body_exact:
  assumes "unat limit + 1 < 2 ^ 64"
  shows "decode_body E enc body limit =
    (case enc of
       None \<Rightarrow> if length body \<le> unat limit then Inr body else Inl OtherIo
     | Some e \<Rightarrow>
         if is_gzip e
         then (case gunzip E body of (bytes, complete) \<Rightarrow>
                 if complete \<and> length bytes \<le> unat limit then Inr bytes else Inl OtherIo)
         else if (str_trim e = [] \<or> eq_ignore_ascii_case (str_trim e) ''identity'') \<and> length body \<le> unat limit
         then Inr body else Inl OtherIo)"
proof (cases enc)
  case None
  then show ?thesis by (auto simp: decode_body_def within_limit_def)
next
  case (Some e)
  show ?thesis
  proof (cases "is_gzip e")
    case True
    then show ?thesis using Some decode_body_gzip[OF True assms, of E body] by simp
  next
    case False
    then show ?thesis using Some by (auto simp: decode_body_def is_gzip_def within_limit_def)
  qed
qed

theorem decode_body_exact_witness:
  "decode_body sample_srv_env (Some ''gzip'') ''ab'' 4 = Inr ''abab'' \<and>
   decode_body sample_srv_env (Some ''gzip'') ''ab'' 3 = Inl OtherIo"
proof -
  have z: "is_gzip ''gzip''" by code_simp
  have g: "gunzip sample_srv_env b = (b @ b, True)" for b
    by (simp add: sample_srv_env_def sample_lfs_env_def lfs_env.defs srv_env.defs)
  have "unat (4 :: u64) = 4" "unat (3 :: u64) = 3" by simp_all
  then show ?thesis
    using decode_body_exact[of 4 sample_srv_env "Some ''gzip''" "''ab''"]
      decode_body_exact[of 3 sample_srv_env "Some ''gzip''" "''ab''"] z g by simp
qed

text \<open>At the largest limit the addition in the decoder wraps to zero: a gzipped body is then read as
  empty, whatever it contains, instead of being decoded.\<close>

theorem decode_body_wraps:
  assumes "is_gzip e"
  shows "decode_body E (Some e) body (2 ^ 64 - 1) = Inr []"
  using assms by (simp add: decode_body_def is_gzip_def read_limited_def within_limit_def split: prod.split)

theorem decode_body_wraps_witness: "decode_body sample_srv_env (Some ''gzip'') ''ab'' (2 ^ 64 - 1) = Inr []"
proof -
  have "is_gzip ''gzip''" by code_simp
  then show ?thesis using decode_body_wraps by blast
qed

text \<open>C30: A rewritten link leads back to its object. For a repository the proxy accepts and a valid object id,
  the link put into a batch response is the base address, a path and a query such that requesting them is
  handled as a request for that object, in that repository, with that size.\<close>

theorem href_roundtrip:
  assumes "plain_name repo" "\<not> contains (repo @ ''/'') LFS_MARKER" "valid_lfs_oid oid"
    "check_auth E st (rq_headers req) = None" "rq_method req = ''GET''"
  shows "\<exists>path query. proxy_href base repo oid sz = base @ path @ ''?'' @ query \<and>
    size_from_query query = Some sz \<and>
    handle_git E L st (req\<lparr>rq_path := path, rq_query := Some query\<rparr>) others w =
      lfs_object E L st repo oid query others w"
proof -
  let ?path = "''/'' @ repo @ LFS_MARKER @ oid" and ?query = "''size='' @ show_dec (unat sz)"
  have p: "lfs_object_from_path ?path = Some (repo, oid)"
  proof -
    have "repo \<noteq> []" "\<not> starts_with repo ''/''" using assms(1) plain_name_relative by (auto simp: plain_name_def)
    then have "trim_start_matches ?path (CHR ''/'') = repo @ LFS_MARKER @ oid"
      using trim_start_matches_id[of "repo @ LFS_MARKER @ oid" "CHR ''/''"] starts_with_slash_append[of repo]
      by (simp add: trim_start_matches_def)
    then show ?thesis
      using str_find_marker[OF assms(2), of oid] \<open>repo \<noteq> []\<close> assms(3) by (simp add: lfs_object_from_path_iff Let_def)
  qed
  have "\<not> contains ?query (''service='' @ RECEIVE_PACK)"
  proof
    assume "contains ?query (''service='' @ RECEIVE_PACK)"
    then obtain a b where "?query = a @ (''service='' @ RECEIVE_PACK) @ b" unfolding contains_iff by blast
    then have "set (''service='' @ RECEIVE_PACK) \<subseteq> set ?query" by (metis set_append sup.cobounded1 sup.coboundedI2)
    then have "CHR ''v'' \<in> set (show_dec (unat sz))" by (simp add: RECEIVE_PACK_def)
    then show False using show_dec_chars by (fastforce simp: digit_val_def)
  qed
  then have "handle_git E L st (req\<lparr>rq_path := ?path, rq_query := Some ?query\<rparr>) others w =
      lfs_object E L st repo oid ?query others w"
    using assms(4,5) p by (intro handle_git_object) simp_all
  moreover have "proxy_href base repo oid sz = base @ ?path @ ''?'' @ ?query"
    by (simp add: proxy_href_def LFS_MARKER_def)
  ultimately show ?thesis using size_from_query_show by blast
qed

theorem href_roundtrip_witness:
  "\<exists>path query. proxy_href ''http://p'' ''g/r'' sample_oid 2 = ''http://p'' @ path @ ''?'' @ query \<and>
    size_from_query query = Some 2 \<and>
    handle_git sample_srv_env list_lru sample_state (sample_get [] []\<lparr>rq_path := path, rq_query := Some query\<rparr>) id sample_lfs_world =
      lfs_object sample_srv_env list_lru sample_state ''g/r'' sample_oid query id sample_lfs_world"
proof -
  have "plain_name ''g/r''" by (simp add: plain_name_def)
  moreover have "\<not> contains (''g/r'' @ ''/'') LFS_MARKER" by code_simp
  ultimately show ?thesis
    by (rule href_roundtrip[OF _ _ sample_oid_valid sample_auth]) (simp add: sample_get_def)
qed

text \<open>C19: An LFS object that a client receives is the one it asked for: when the response to an object request
  is a file, its bytes hash to the object's id and its length is announced correctly, whatever the upstream sent.\<close>

theorem served_object_intact:
  assumes "valid_lfs_oid oid" "store_sound E (as_lfs st) (w_fs w)"
    "\<And>u. store_sound E (as_lfs st) (w_fs u) \<Longrightarrow> store_sound E (as_lfs st) (w_fs (others u))"
    "lfs_object E L st repo oid query others w = (resp, w')" "rs_body resp = FileStream bytes"
  shows "hex_encode (sha256 E bytes) = oid \<and> map_of (rs_headers resp) ''content-length'' = Some (show_dec (length bytes))"
proof -
  obtain r w1 where e: "ensure_object E L (as_lfs st) repo oid (size_from_query query) others w = (r, w1)" by force
  have sound: "store_sound E (as_lfs st) (w_fs w1)" "\<And>path out. r = Inr (path, out) \<Longrightarrow>
      lfs_object_path (cache_root (as_lfs st)) oid = Some path"
    using ensure_object_sound[OF assms(1,2) _ e] assms(3)[of "lfs_slot oid w"] assms(2) by simp_all
  obtain path out where r: "r = Inr (path, out)"
    using assms(4,5) e by (cases r) (auto simp: lfs_object_def err_def)
  have "\<exists>t. fs_lookup (w_fs w1) (components path) = Some (File bytes t) \<and>
      map_of (rs_headers resp) ''content-length'' = Some (show_dec (length bytes))"
    using assms(4,5) e r
    by (auto simp: lfs_object_def lfs_file_response_def fs_stat_def ok_response_def err_def Let_def
        split: sum.splits node.splits if_splits option.splits)
  moreover have "components path = object_path (as_lfs st) oid"
    using components_lfs_object_path[OF assms(1) sound(2)[OF r]] by (simp add: object_path_def)
  ultimately show ?thesis using sound(1) assms(1) unfolding store_sound_def by auto
qed

theorem served_object_intact_witness:
  "\<exists>bytes. rs_body (fst (lfs_object sample_srv_env list_lru sample_state ''g/r'' sample_oid ''size=2'' id sample_lfs_world)) =
      FileStream bytes \<and> hex_encode (sha256 sample_srv_env bytes) = sample_oid"
proof -
  have run: "rs_body (fst (lfs_object sample_srv_env list_lru sample_state ''g/r'' sample_oid ''size=2'' id sample_lfs_world)) =
      FileStream ''ok''"
    by code_simp
  have "store_sound sample_srv_env (as_lfs sample_state) (w_fs sample_lfs_world)"
    by (simp add: store_sound_def sample_lfs_world_def fs_lookup_def object_path_def)
  from served_object_intact[OF sample_oid_valid this _ prod.collapse[symmetric] run] run show ?thesis by simp
qed

end
