(* ===== verification/Requests.thy ===== *)
theory Requests
  imports Maintain Server
begin

text \<open>
  What a request does to the index and the metrics. The background task of \<^verbatim>\<open>src/src/evict.rs\<close> relies on the other tasks to
  leave the index consistent and to announce the work they make for it (\<open>rely\<close> in theory \<open>Maintain\<close>). The locale
  \<open>handler_frame\<close> follows a relation between worlds through every handler of \<^verbatim>\<open>src/src/server.rs\<close> and what it calls; its
  instances show that every request meets that obligation, and that what it records fits the metric families.
\<close>

section \<open>Steps that keep a property of the index\<close>

definition keeps_index ::
  "('l CacheIndex option \<Rightarrow> bool) \<Rightarrow> ('l, 'z) cache_world_scheme \<Rightarrow> ('l, 'z) cache_world_scheme \<Rightarrow> bool" where
  "keeps_index P w w' \<longleftrightarrow> (P (w_index w) \<longrightarrow> P (w_index w'))"

definition has_calm :: "'l lru_ops \<Rightarrow> 'l CacheIndex option \<Rightarrow> bool" where
  "has_calm L i \<longleftrightarrow> (\<exists>idx. i = Some idx \<and> calm L idx)"

abbreviation keeps_calm where
  "keeps_calm L \<equiv> keeps_index (has_calm L)"

lemma rely_iff: "rely L f \<longleftrightarrow> (\<forall>w. keeps_calm L w (f w))"
  by (auto simp: rely_def keeps_index_def has_calm_def)

lemma keeps_index_same: "w_index w' = w_index w \<Longrightarrow> keeps_index P w w'"
  by (simp add: keeps_index_def)

lemma keeps_index_trans: "keeps_index P w1 w2 \<Longrightarrow> keeps_index P w2 w3 \<Longrightarrow> keeps_index P w1 w3"
  unfolding keeps_index_def by blast

lemma keeps_index_left: "w_index w1 = w_index w \<Longrightarrow> keeps_index P w1 w2 \<Longrightarrow> keeps_index P w w2"
  by (simp add: keeps_index_def)

text \<open>The operations of requests, as steps of the index.\<close>

definition index_does :: "'l lru_ops \<Rightarrow> index_op \<Rightarrow> ('l, 'z) cache_world_scheme \<Rightarrow> ('l, 'z) cache_world_scheme \<Rightarrow> bool" where
  "index_does L op w w' \<longleftrightarrow> w_index w' = Option.bind (w_index w) (\<lambda>idx. map_option fst (index_step L op idx))"

lemma mirror_ops:
  "index_does L (MarkChanged (name repo)) w (cache_mark_changed L repo w)"
  "index_does L (Touch k) w (touch_index L k w)"
  by (auto simp: index_does_def cache_mark_changed_def touch_index_def map_conv_bind_option comp_def
      split: option.split prod.split)

lemma blob_op: "index_does L (RecordBlob k sz) w (lfs_record_blob L k sz w)"
  by (auto simp: index_does_def lfs_record_blob_def split: option.split prod.split)

lemma keeps_index_does:
  assumes "index_does L op w w'" "\<And>i. P i \<Longrightarrow> P (Option.bind i (\<lambda>idx. map_option fst (index_step L op idx)))"
  shows "keeps_index P w w'"
  using assms by (simp add: keeps_index_def index_does_def)

context lru_laws begin

lemma does_keeps_calm: "index_does L op w w' \<Longrightarrow> is_request op \<Longrightarrow> keeps_calm L w w'"
  by (erule keeps_index_does) (use request_calm in \<open>fastforce simp: has_calm_def\<close>)

lemmas calm_ops = mirror_ops[THEN does_keeps_calm, simplified] blob_op[THEN does_keeps_calm, simplified]

end

lemma index_git: "io_context msg (run_git E c) w = (r, w') \<Longrightarrow> w_index w' = w_index w"
  by (auto dest!: io_contextD io_only_run_git io_only_cache)

lemma index_syscall: "io_context msg (syscall E op) w = (r, w') \<Longrightarrow> w_index w' = w_index w"
  by (auto dest!: io_contextD io_only_syscall io_only_cache)

lemma index_run_upstream: "run_upstream E c op k staging w = (r, w') \<Longrightarrow> w_index w' = w_index w"
  by (auto dest!: io_only_run_upstream io_only_cache)

text \<open>Keeping a mirror fresh.\<close>

lemma keeps_index_start:
  "keeps_index P (slot k w) (touch_index L k (slot k w)) \<Longrightarrow> keeps_index P w (touch_index L k (slot k w))"
  by (rule keeps_index_left) (simp_all add: slot_def)

sublocale lru_laws < calm: fresh_frame E L cfg repo "keeps_calm L" for E cfg repo
  by unfold_locales (auto simp: set_last_def intro: keeps_index_same keeps_index_trans keeps_index_start calm_ops
      dest: index_git index_syscall index_run_upstream)

section \<open>LFS objects\<close>

lemma quiet_lfs_sys: "lfs_sys E msg op w = (r, w') \<Longrightarrow> w_index w' = w_index w \<and> w_trace w' = w_trace w"
  by (auto simp: lfs_sys_def syscall_def split: prod.splits sum.splits if_splits)

lemma quiet_http_send: "with_context msg (http_send E req) w = (r, w') \<Longrightarrow> w_index w' = w_index w \<and> w_trace w' = w_trace w"
  by (auto simp: with_context_def http_send_def)

lemma quiet_post_batch: "with_context msg (post_batch E cfg url body) w = (r, w') \<Longrightarrow> w_index w' = w_index w \<and> w_trace w' = w_trace w"
  by (auto simp: with_context_def post_batch_def http_send_def split: prod.splits sum.splits)

lemma quiet_batch: "batch E cfg repo body base w = (r, w') \<Longrightarrow> w_index w' = w_index w \<and> w_trace w' = w_trace w"
  by (auto simp: batch_def dest!: quiet_post_batch split: prod.splits sum.splits)

lemma quiet_download_action: "download_action E cfg repo oid sz w = (r, w') \<Longrightarrow> w_index w' = w_index w \<and> w_trace w' = w_trace w"
  by (auto simp: download_action_def dest!: quiet_post_batch split: prod.splits sum.splits)

lemma quiet_tmp_path: "tmp_path E cfg w = (r, w') \<Longrightarrow> w_index w' = w_index w \<and> w_trace w' = w_trace w"
  by (auto simp: tmp_path_def dest!: quiet_lfs_sys split: prod.splits sum.splits)

lemma quiet_write_chunks: "write_chunks E out cs w = (r, w') \<Longrightarrow> w_index w' = w_index w \<and> w_trace w' = w_trace w"
proof (induction E out cs w rule: write_chunks.induct)
  case (3 E out c cs w)
  then show ?case by (auto dest!: quiet_lfs_sys split: prod.splits sum.splits)
qed (auto dest: quiet_lfs_sys)

lemma quiet_download: "download_to_file E url headers out w = (r, w') \<Longrightarrow> w_index w' = w_index w \<and> w_trace w' = w_trace w"
  by (auto simp: download_to_file_def dest!: quiet_http_send quiet_lfs_sys quiet_write_chunks split: prod.splits sum.splits)

lemma quiet_sha256: "sha256_file E path w = (r, w') \<Longrightarrow> w_index w' = w_index w \<and> w_trace w' = w_trace w"
  by (auto simp: sha256_file_def split: if_splits sum.splits node.splits)

lemma quiet_remove_file [simp]:
  "w_index (io_ignore (io_remove_file E tmp) w) = w_index w" "w_trace (io_ignore (io_remove_file E tmp) w) = w_trace w"
  by (auto simp: io_ignore_def syscall_def split: prod.splits)

text \<open>Fetching an object reaches the index at most once, at its end.\<close>

definition records_blob :: "'l lru_ops \<Rightarrow> string \<Rightarrow> ('l, 'z) lfs_world_scheme \<Rightarrow> ('l, 'z) lfs_world_scheme \<Rightarrow> bool" where
  "records_blob L key w w' \<longleftrightarrow> w_index w' = w_index w \<and> w_trace w' = w_trace w \<or>
     (\<exists>sz u. w_index u = w_index w \<and> w_trace u = w_trace w \<and> w' = lfs_record_blob L key sz u)"

lemma store_records:
  assumes "store_object E L key tmp final_path w = (r, w')"
  shows "records_blob L key w w'"
proof -
  let ?parent = "case parent_path final_path of None \<Rightarrow> (Inr (), w)
    | Some parent \<Rightarrow> lfs_sys E ''create lfs shard dir'' (fs_create_dir_all parent) w"
  obtain r1 w1 where p: "?parent = (r1, w1)" by force
  obtain r2 w2 where s: "lfs_sys E ''store lfs object'' (fs_rename (components tmp) (components final_path)) w1 = (r2, w2)"
    by force
  have i: "w_index w1 = w_index w \<and> w_trace w1 = w_trace w" using p by (auto dest: quiet_lfs_sys split: option.splits)
  then have i2: "w_index w2 = w_index w \<and> w_trace w2 = w_trace w" using quiet_lfs_sys[OF s] by simp
  have "w' = w1 \<or> w' = w2 \<or> (\<exists>sz. w' = lfs_record_blob L key sz w2)"
    using assms p s by (auto simp: store_object_def Let_def split: sum.splits)
  then show ?thesis using i i2 unfolding records_blob_def by blast
qed

lemma fetch_object_records:
  assumes "fetch_object E L cfg repo oid sz key final_path w = (r, w')"
  shows "records_blob L key w w'"
proof -
  obtain r1 w1 where a: "download_action E cfg repo oid sz w = (r1, w1)" by force
  obtain r2 w2 where b: "tmp_path E cfg w1 = (r2, w2)" by force
  obtain href headers where h: "isl r1 \<or> r1 = Inr (href, headers)" by (cases r1) auto
  obtain tmp where t: "isl r2 \<or> r2 = Inr tmp" by (cases r2) auto
  obtain r3 w3 where c: "download_to_file E href headers tmp w2 = (r3, w3)" by force
  obtain r4 w4 where d: "sha256_file E tmp w3 = (r4, w4)" by force
  note q = quiet_download_action[OF a] quiet_tmp_path[OF b] quiet_download[OF c] quiet_sha256[OF d]
  have "w_index w' = w_index w \<and> w_trace w' = w_trace w \<or> store_object E L key tmp final_path w4 = (r, w')"
    using assms a b c d h t q
    by (cases r1; cases r2; cases r3; cases r4) (auto simp: fetch_object_def split: if_splits)
  moreover have "w_index w4 = w_index w \<and> w_trace w4 = w_trace w" using q by simp
  ultimately show ?thesis using store_records[of E L key tmp final_path w4 r w'] by (auto simp: records_blob_def)
qed

section \<open>Relations the handlers respect\<close>

lemma quiet_cache_writable: "cache_writable E root w = (r, w') \<Longrightarrow> w_index w' = w_index w \<and> w_trace w' = w_trace w"
  by (auto simp: cache_writable_def Let_def syscall_def split: prod.splits sum.splits if_splits)

lemma quiet_readyz: "readyz E st w = (r, w') \<Longrightarrow> w_index w' = w_index w \<and> w_trace w' = w_trace w"
  by (auto simp: readyz_def dest!: quiet_cache_writable split: prod.splits sum.splits)

section \<open>What is recorded\<close>

text \<open>A metrics call that fits its family and carries a repository's name only with a success.\<close>

fun recorded_event :: "io_event \<Rightarrow> bool" where
  "recorded_event (MetricCall c) = (call_ok c \<and> label_disciplined c)"
| "recorded_event _ = True"

abbreviation records where
  "records \<equiv> emits recorded_event"

lemma emits_mono: "emits P w w' \<Longrightarrow> (\<And>e. P e \<Longrightarrow> Q e) \<Longrightarrow> emits Q w w'"
  by (auto simp: emits_def list_all_iff)

lemma mirror_event_recorded: "mirror_event cfg repo e \<Longrightarrow> recorded_event e"
  by (cases e) (simp_all add: good_call_def)

lemma recorded_callsI:
  "list_all call_ok cs \<Longrightarrow> \<forall>c\<in>set cs. label_disciplined c \<Longrightarrow> list_all recorded_event (map MetricCall cs)"
  by (simp add: list_all_iff)

lemma recorded_calls [simp]:
  "list_all recorded_event (map MetricCall (record_request k r ''-''))"
  "list_all recorded_event (map MetricCall (record_request k Ok repo))"
  "list_all recorded_event (map MetricCall (record_lfs l))"
  "list_all recorded_event (map MetricCall (record_cache_outcome co))"
  "list_all recorded_event (map MetricCall (observe_serve sk repo t))"
  "list_all recorded_event (map MetricCall (set_gauges L inner))"
  by (rule recorded_callsI, simp add: calls_ok set_gauges_def,
      simp add: set_gauges_def recording_defs label_disciplined_def Let_def)+

lemma records_metric: "records w w' \<Longrightarrow> list_all recorded_event (map MetricCall ms) \<Longrightarrow> records w (metric ms w')"
  by (rule emits_metric)

text \<open>A relation between worlds that steps without effect on index and trace respect, and the metrics calls of the handlers, the
  commands that serve a mirror, \<open>ensure_fresh\<close> and the calls on the index, is respected by every request.\<close>

locale handler_frame =
  fixes E :: "('e) srv_env_scheme" and L :: "'l lru_ops"
    and R :: "('l, 'z) lfs_world_scheme \<Rightarrow> ('l, 'z) lfs_world_scheme \<Rightarrow> bool"
  assumes R_trans: "R w1 w2 \<Longrightarrow> R w2 w3 \<Longrightarrow> R w1 w3"
    and R_same: "w_index w' = w_index w \<Longrightarrow> w_trace w' = w_trace w \<Longrightarrow> R w w'"
    and R_metric: "list_all recorded_event (map MetricCall ms) \<Longrightarrow> R w (metric ms w)"
    and R_git: "io_context msg (run_git E c) w = (r, w') \<Longrightarrow> R w w'"
    and R_fresh: "resolve n up root = Inr repo \<Longrightarrow> ensure_fresh E L cfg repo want_fetch body w = (r', w') \<Longrightarrow> R w w'"
    and R_touch: "R w (touch_index L k w)"
    and R_blob: "valid_lfs_oid oid \<Longrightarrow> lfs_object_key oid = Some k \<Longrightarrow> R w (lfs_record_blob L k sz w)"
begin

lemma R_refl: "R w w"
  by (rule R_same) simp_all

lemma after_metric: "R w w' \<Longrightarrow> list_all recorded_event (map MetricCall ms) \<Longrightarrow> R w (metric ms w')"
  using R_trans R_metric by blast

lemma advertise_frame: "advertise_refs E cfg repo p w = (r, w') \<Longrightarrow> R w w'"
  by (auto simp: advertise_refs_def Let_def dest!: R_git intro!: after_metric split: prod.splits sum.splits if_splits)

lemma upload_rpc_frame: "upload_pack_rpc E cfg repo p body w = (r, w') \<Longrightarrow> R w w'"
  by (auto simp: upload_pack_rpc_def dest!: R_git split: prod.splits sum.splits)

lemma fetch_object_frame:
  assumes "valid_lfs_oid oid" "lfs_object_key oid = Some key"
    "fetch_object E L cfg repo oid sz key final_path w = (r, w')"
  shows "R w w'"
  using fetch_object_records[OF assms(3)] R_same R_trans R_blob[OF assms(1,2)] unfolding records_blob_def by metis

lemma ensure_object_frame:
  assumes "\<And>u. R u (others u)" "valid_lfs_oid oid" "ensure_object E L cfg repo oid sz others w = (r, w')"
  shows "R w w'"
proof -
  obtain key where k: "lfs_object_key oid = Some key" using lfs_object_key_valid[OF assms(2)] by blast
  have o: "R w (others (lfs_slot oid w))"
    using R_trans[OF R_same assms(1)[of "lfs_slot oid w"]] by (simp add: lfs_slot_def)
  from assms(3) k show ?thesis
  proof (cases rule: ensure_object_cases)
    case (hit u)
    then show ?thesis using o R_refl R_trans[OF _ R_touch] by blast
  next
    case (fetched n r0)
    then show ?thesis using R_trans[OF o fetch_object_frame[OF assms(2) k fetched(2)]] by simp
  qed (use o in simp)
qed

lemma info_refs_frame:
  assumes "info_refs E L st path p w = (r, w')"
  shows "R w w'"
proof -
  have o: "R (metric (record_cache_outcome co) u) v \<Longrightarrow> R w u \<Longrightarrow> R w v" for co u v
    by (rule R_trans[OF after_metric[of w u "record_cache_outcome co"]]) simp_all
  show ?thesis
    using assms
    by (auto simp: info_refs_def intro!: after_metric R_refl dest!: R_fresh advertise_frame
        intro: o split: option.splits sum.splits prod.splits)
qed

lemma upload_pack_frame: "upload_pack E L st path p body w = (r, w') \<Longrightarrow> R w w'"
  by (auto simp: upload_pack_def intro!: after_metric R_refl dest!: R_fresh upload_rpc_frame
      intro: R_trans split: option.splits sum.splits prod.splits)

lemma lfs_batch_frame: "lfs_batch E st path headers body w = (r, w') \<Longrightarrow> R w w'"
  by (auto simp: lfs_batch_def R_refl intro!: after_metric intro: R_same dest!: quiet_batch
      split: option.splits if_splits prod.splits sum.splits)

lemma lfs_object_frame:
  assumes "\<And>u. R u (others u)" "valid_lfs_oid oid" "lfs_object E L st repo oid q others w = (r, w')"
  shows "R w w'"
proof -
  obtain r1 w1 where e: "ensure_object E L (as_lfs st) repo oid (size_from_query q) others w = (r1, w1)" by force
  have "R w w1" using ensure_object_frame[OF assms(1,2) e] .
  then show ?thesis
    using assms(3) e by (auto simp: lfs_object_def Let_def intro!: after_metric split: sum.splits prod.splits)
qed

lemma handle_git_frame:
  assumes "\<And>u. R u (others u)" "handle_git E L st req others w = (resp, w')"
  shows "R w w'"
  using assms(2)
proof (cases rule: handle_git_cases)
  case (answered ms)
  then show ?thesis by (auto simp: R_refl intro!: after_metric)
next
  case (object repo oid query)
  have "valid_lfs_oid oid" using object(1) by (simp add: lfs_object_from_path_iff Let_def)
  then show ?thesis using lfs_object_frame[OF assms(1) _ object(2)] by blast
qed (auto dest: info_refs_frame upload_pack_frame lfs_batch_frame)

lemma router_frame:
  assumes "\<And>u. R u (others u)"
  shows "R w (snd (router E L st req others w))"
proof -
  obtain r w' where c: "router E L st req others w = (r, w')" by force
  obtain r1 w1 where z: "readyz E st w = (r1, w1)" by force
  obtain r2 w2 where h: "handle_git E L st req others w = (r2, w2)" by force
  have "w' = w \<or> w' = w1 \<or> w' = w2" using c z h by (auto simp: router_def split: if_splits)
  then show ?thesis using c quiet_readyz[OF z] handle_git_frame[OF assms h] R_same R_refl by auto
qed

end

section \<open>The index\<close>

sublocale lru_laws < calm_requests: handler_frame E L "keeps_calm L" for E
  by unfold_locales
    (auto intro: keeps_index_same keeps_index_trans calm_ops calm.ensure_fresh_frame dest: index_git)

context lru_laws begin

lemma router_relied: "rely L others \<Longrightarrow> rely L (\<lambda>w. snd (router E L st req others w))"
  unfolding rely_iff by (blast intro: calm_requests.router_frame)

end

section \<open>The metrics\<close>

lemma blob_records: "records w (lfs_record_blob L k sz w)"
proof (cases "w_index w")
  case (Some idx)
  obtain idx' calls where r: "record_blob L k sz idx = (idx', calls)" by force
  then obtain inner where "calls = set_gauges L inner"
    by (auto simp: record_blob_def Let_def split: prod.splits if_splits)
  moreover have "records w (w\<lparr>w_index := Some idx'\<rparr>)" by (simp add: emits_same_trace)
  ultimately show ?thesis using Some r by (simp add: lfs_record_blob_def records_metric)
qed (simp add: lfs_record_blob_def emits_refl)

interpretation recorded: handler_frame E L "emits recorded_event" for E L
  by unfold_locales
    (auto simp: emits_refl emits_same_trace touch_index_def blob_records intro: emits_trans records_metric[OF emits_refl]
      dest!: io_contextD intro: emits_run_git emits_mono[OF events.ensure_fresh_frame mirror_event_recorded])

section \<open>Properties\<close>

text \<open>C37: Metrics. The families have different names and increasing buckets, so that creating and registering them
  succeeds. Whatever a client sends and whatever fails, every
  call a request makes on the metrics names a registered family with that family's number of labels, so that no
  recording panics; and a counter carries a repository's name only together with a success, so that requests
  for repositories that do not exist add no series.\<close>

theorem requests_recorded:
  assumes "handle_git E L st req others w = (resp, w')"
    "\<And>u. \<exists>es. w_trace (others u) = w_trace u @ es \<and> list_all recorded_event es"
  shows "registrable Metrics_new \<and>
    (\<exists>es. w_trace w' = w_trace w @ es \<and>
       list_all (\<lambda>e. case e of MetricCall c \<Rightarrow> call_ok c \<and> label_disciplined c | _ \<Rightarrow> True) es)"
proof -
  have "records w w'"
    using assms(2) by (intro recorded.handle_git_frame[OF _ assms(1)]) (simp add: emits_def)
  moreover have "recorded_event = (\<lambda>e. case e of MetricCall c \<Rightarrow> call_ok c \<and> label_disciplined c | _ \<Rightarrow> True)"
    by (rule ext) (simp split: io_event.split)
  ultimately show ?thesis using Metrics_new_registrable by (simp add: emits_def)
qed

theorem requests_recorded_witness:
  "\<exists>es. w_trace (snd (handle_git sample_srv_env list_lru sample_state
      (sample_get ''/g/r/info/refs'' ''service=git-upload-pack'') id sample_lfs_world)) = es \<and>
    list_all (\<lambda>e. case e of MetricCall c \<Rightarrow> call_ok c \<and> label_disciplined c | _ \<Rightarrow> True) es"
  using requests_recorded[OF prod.collapse[symmetric], of id sample_srv_env list_lru sample_state
      "sample_get ''/g/r/info/refs'' ''service=git-upload-pack''" sample_lfs_world]
  by (simp add: sample_lfs_world_def)

end
