(* ===== verification/SingleFlight.thy ===== *)
theory SingleFlight
  imports Freshness
begin

text \<open>
  Concurrent callers of \<open>ensure_fresh\<close> (\<^verbatim>\<open>src/src/git.rs\<close>) for one repository. Each marks the repository as used, then
  queues for its \<open>fetch_lock\<close> and, holding it, runs the rest of the method. The file system and the clock move on
  between the steps; other repositories are served meanwhile. The lemmas show that the lock is held by one
  caller at a time and that a burst of callers completes at most one upstream pull.
\<close>

section \<open>The critical section\<close>

definition locked_section ::
  "('e) io_env_scheme \<Rightarrow> 'l lru_ops \<Rightarrow> GitConfig \<Rightarrow> RepoRef \<Rightarrow> bool \<Rightarrow> string \<Rightarrow>
     ('l, 'z) cache_world_scheme \<Rightarrow> (error + CacheOutcome) \<times> ('l, 'z) cache_world_scheme" where
  "locked_section E L cfg repo want_fetch body w =
     (case refresh_mirror E L cfg repo want_fetch w of
        (Inl e, w1) \<Rightarrow> (Inl e, w1)
      | (Inr outcome, w1) \<Rightarrow> (Inr outcome, snd (ensure_wanted_oids E L cfg repo body w1)))"

lemma ensure_fresh_locked:
  "ensure_fresh E L cfg repo want_fetch body w =
     locked_section E L cfg repo want_fetch body (touch_index L (name repo) (slot (name repo) w))"
  by (simp add: ensure_fresh_def locked_section_def)

section \<open>Callers and their lock\<close>

text \<open>A caller has its arguments until it arrives, waits, holds the lock, has returned, or was dropped with its
  request.\<close>

datatype caller =
    Idle bool string
  | Queued bool string
  | Holding bool string
  | Returned "error + CacheOutcome"
  | Gone

record ('l, 'z) flight =
  fl_world :: "('l, 'z) cache_world_scheme"
  fl_lock :: "nat option"
  fl_callers :: "caller list"
  fl_evictions :: nat

text \<open>What the rest of the program may do to the world between the steps: it leaves this mirror and its slot alone, except
  that the background task may evict the mirror, which takes the lock too (what it removes after it has released
  the lock is not the mirror any more). A caller that is dropped while it holds the lock may have stopped
  anywhere in the section: the \<open>HEAD\<close> of the mirror, once there, stays, and the time of the last pull is as before
  or is the reading of the clock taken after a pull.\<close>

definition head_of :: "RepoRef \<Rightarrow> ('z) io_world_scheme \<Rightarrow> node option" where
  "head_of repo w = fs_lookup (w_fs w) (components (cache_dir repo) @ [Normal ''HEAD''])"

definition leaves_mirror :: "RepoRef \<Rightarrow> ('l, 'z) cache_world_scheme \<Rightarrow> ('l, 'z) cache_world_scheme \<Rightarrow> bool" where
  "leaves_mirror repo w w' \<longleftrightarrow>
     slot_last (name repo) w' = slot_last (name repo) w \<and> deny (w_fs w') = deny (w_fs w) \<and>
     (head_of repo w \<noteq> None \<longrightarrow> head_of repo w' \<noteq> None)"

definition cut_short ::
  "('e) io_env_scheme \<Rightarrow> RepoRef \<Rightarrow> ('l, 'z) cache_world_scheme \<Rightarrow> ('l, 'z) cache_world_scheme \<Rightarrow> bool" where
  "cut_short E repo w w' \<longleftrightarrow>
     deny (w_fs w') = deny (w_fs w) \<and> (head_of repo w \<noteq> None \<longrightarrow> head_of repo w' \<noteq> None) \<and>
     (slot_last (name repo) w' = slot_last (name repo) w \<or> (\<exists>m. slot_last (name repo) w' = Some (clock E m)))"

inductive flight_step ::
  "('e) io_env_scheme \<Rightarrow> 'l lru_ops \<Rightarrow> GitConfig \<Rightarrow> RepoRef \<Rightarrow> ('l, 'z) flight \<Rightarrow> ('l, 'z) flight \<Rightarrow> bool"
  for E :: "('e) io_env_scheme" and L :: "'l lru_ops" and cfg :: GitConfig and repo :: RepoRef where
  arrive: "i < length (fl_callers s) \<Longrightarrow> fl_callers s ! i = Idle want_fetch body \<Longrightarrow>
      flight_step E L cfg repo s (s\<lparr>fl_world := touch_index L (name repo) (slot (name repo) (fl_world s)),
        fl_callers := (fl_callers s)[i := Queued want_fetch body]\<rparr>)"
| lock: "i < length (fl_callers s) \<Longrightarrow> fl_callers s ! i = Queued want_fetch body \<Longrightarrow> fl_lock s = None \<Longrightarrow>
      flight_step E L cfg repo s (s\<lparr>fl_lock := Some i, fl_callers := (fl_callers s)[i := Holding want_fetch body]\<rparr>)"
| return: "i < length (fl_callers s) \<Longrightarrow> fl_callers s ! i = Holding want_fetch body \<Longrightarrow>
      locked_section E L cfg repo want_fetch body (fl_world s) = (r, w') \<Longrightarrow>
      flight_step E L cfg repo s (s\<lparr>fl_world := w', fl_lock := None, fl_callers := (fl_callers s)[i := Returned r]\<rparr>)"
| leave: "i < length (fl_callers s) \<Longrightarrow> fl_callers s ! i = Queued want_fetch body \<Longrightarrow>
      flight_step E L cfg repo s (s\<lparr>fl_callers := (fl_callers s)[i := Gone]\<rparr>)"
| abort: "i < length (fl_callers s) \<Longrightarrow> fl_callers s ! i = Holding want_fetch body \<Longrightarrow>
      cut_short E repo (fl_world s) w' \<Longrightarrow>
      flight_step E L cfg repo s (s\<lparr>fl_world := w', fl_lock := None, fl_callers := (fl_callers s)[i := Gone]\<rparr>)"
| evicted: "fl_lock s = None \<Longrightarrow> evict E (name repo) (cache_dir repo) (fl_world s) = (r, w') \<Longrightarrow>
      flight_step E L cfg repo s (s\<lparr>fl_world := w', fl_evictions := Suc (fl_evictions s)\<rparr>)"
| others: "leaves_mirror repo (fl_world s) w' \<Longrightarrow> flight_step E L cfg repo s (s\<lparr>fl_world := w'\<rparr>)"

section \<open>One holder at a time\<close>

fun holds :: "caller \<Rightarrow> bool" where
  "holds (Holding want_fetch body) = True"
| "holds _ = False"

fun pulled :: "caller \<Rightarrow> bool" where
  "pulled (Returned (Inr Cloned)) = True"
| "pulled (Returned (Inr Fetched)) = True"
| "pulled _ = False"

lemma pulled_iff: "pulled (Returned r) \<longleftrightarrow> r = Inr Cloned \<or> r = Inr Fetched"
  by (cases "Returned r" rule: pulled.cases) auto

definition lock_ok :: "('l, 'z) flight \<Rightarrow> bool" where
  "lock_ok s \<longleftrightarrow> (\<forall>i < length (fl_callers s). holds (fl_callers s ! i) \<longleftrightarrow> fl_lock s = Some i)"

lemma lock_ok_step: "flight_step E L cfg repo s s' \<Longrightarrow> lock_ok s \<Longrightarrow> lock_ok s'"
  by (induction rule: flight_step.induct) (auto simp: lock_ok_def nth_list_update)

section \<open>A burst pulls once\<close>

text \<open>All readings of the clock lie within the time to live of each other.\<close>

definition burst :: "('e) io_env_scheme \<Rightarrow> GitConfig \<Rightarrow> bool" where
  "burst E cfg \<longleftrightarrow> (\<forall>m n. clock E n < clock E m + fetch_ttl cfg)"

definition visible :: "RepoRef \<Rightarrow> ('z) io_world_scheme \<Rightarrow> bool" where
  "visible repo w \<longleftrightarrow> components (cache_dir repo) @ [Normal ''HEAD''] \<notin> set (deny (w_fs w))"

definition settled :: "('e) io_env_scheme \<Rightarrow> RepoRef \<Rightarrow> ('l, 'z) cache_world_scheme \<Rightarrow> bool" where
  "settled E repo w \<longleftrightarrow> head_of repo w \<noteq> None \<and> (\<exists>m. slot_last (name repo) w = Some (clock E m))"

lemma head_exists_iff: "head_exists (cache_dir repo) w \<longleftrightarrow> visible repo w \<and> head_of repo w \<noteq> None"
  by (simp add: head_exists_def head_path fs_exists_iff visible_def head_of_def)

lemma settled_not_due:
  assumes "burst E cfg"
  shows "\<not> fetch_due E cfg (Some (clock E m)) w"
proof -
  have "clock E m < clock E m + fetch_ttl cfg" "clock E (w_tick w) < clock E m + fetch_ttl cfg"
    using assms unfolding burst_def by blast+
  then have "fetch_ttl cfg \<noteq> 0" "\<not> clock E (w_tick w) - clock E m \<ge> fetch_ttl cfg" by linarith+
  then show ?thesis by (simp add: fetch_due_def since_def instant_def)
qed

lemma locked_visible:
  assumes "git_confined E" "locked_section E L cfg repo want_fetch body w = (r, w')"
  shows "visible repo w' = visible repo w"
proof -
  obtain r1 w1 where c: "refresh_mirror E L cfg repo want_fetch w = (r1, w1)" by force
  obtain r2 w2 where d: "ensure_wanted_oids E L cfg repo body w1 = (r2, w2)" by force
  have "deny (w_fs w1) = deny (w_fs w)" "deny (w_fs w2) = deny (w_fs w1)"
    using refresh_outside[OF assms(1) c] ensure_wanted_step[OF assms(1) d]
    by (simp_all add: mirror_step_def keeps_outside_def)
  then show ?thesis using assms(2) c d by (cases r1) (auto simp: locked_section_def visible_def)
qed

lemma slot_last_set [simp]: "slot_last k (set_last k t w) = Some t"
  by (simp add: slot_last_def set_last_def)

lemma locked_settles:
  assumes "git_confined E" "resolve n up root = Inr repo" "locked_section E L cfg repo want_fetch body w = (r, w')"
    "pulled (Returned r) \<or> settled E repo w \<and> visible repo w \<and> burst E cfg"
  shows "settled E repo w' \<and> (settled E repo w \<and> visible repo w \<and> burst E cfg \<longrightarrow> r = Inr Cached)"
proof -
  obtain r1 w1 where c: "refresh_mirror E L cfg repo want_fetch w = (r1, w1)" by force
  obtain r2 w2 where d: "ensure_wanted_oids E L cfg repo body w1 = (r2, w2)" by force
  have k: "w_slots w2 = w_slots w1" "head_of repo w1 \<noteq> None \<Longrightarrow> head_of repo w2 \<noteq> None"
    using slots.wanted_frame[OF d] ensure_wanted_step[OF assms(1) d] by (auto simp: mirror_step_def head_of_def)
  have r: "r = r1" "isl r1 \<or> w' = w2" using assms(3) c d by (cases r1; auto simp: locked_section_def)+
  have h: "head_of repo w1 \<noteq> None" if "r1 = Inr o'" for o'
    using refresh_head[OF assms(1,2)] c that by (simp add: head_of_def)
  have calm: "r1 = Inr Cached \<and> w1 = w" if b: "settled E repo w" "visible repo w" "burst E cfg"
  proof -
    have "head_exists (cache_dir repo) w" "\<not> fetch_due E cfg (slot_last (name repo) w) w"
      using b settled_not_due[OF b(3), of _ w] by (auto simp: settled_def head_exists_iff)
    with c show ?thesis by (elim refresh_cases) auto
  qed
  show ?thesis
  proof (cases "settled E repo w \<and> visible repo w \<and> burst E cfg")
    case True
    then show ?thesis using calm r k by (auto simp: settled_def slot_last_def)
  next
    case False
    then have "pulled (Returned r)" using assms(4) by blast
    moreover from c have "\<exists>m. slot_last (name repo) w1 = Some (clock E m)" if "r1 = Inr Cloned \<or> r1 = Inr Fetched"
      using that by (cases rule: refresh_cases) (auto simp: instant_def)
    ultimately have "settled E repo w2" using r h k
      by (auto simp: pulled_iff settled_def slot_last_def)
    then show ?thesis using False r \<open>pulled (Returned r)\<close> by (cases r1) auto
  qed
qed

definition pulls :: "('l, 'z) flight \<Rightarrow> nat" where
  "pulls s = length (filter pulled (fl_callers s))"

lemma length_filter_update:
  assumes "i < length xs"
  shows "length (filter P (xs[i := x])) + (if P (xs ! i) then 1 else 0) = length (filter P xs) + (if P x then 1 else 0)"
proof -
  have l: "filter P xs = filter P (take i xs) @ filter P [xs ! i] @ filter P (drop (Suc i) xs)"
    using id_take_nth_drop[OF assms] by (metis append_Cons append_Nil filter_append)
  have r: "filter P (xs[i := x]) = filter P (take i xs) @ filter P [x] @ filter P (drop (Suc i) xs)"
    using upd_conv_take_nth_drop[OF assms] by (metis append_Cons append_Nil filter_append)
  show ?thesis unfolding l r by simp
qed

lemma pulls_update:
  assumes "i < length (fl_callers s)" "\<not> pulled (fl_callers s ! i)" "fl_callers s' = (fl_callers s)[i := c]"
  shows "pulls s' = pulls s + (if pulled c then 1 else 0)"
  using length_filter_update[OF assms(1), of pulled c] assms(2,3) by (simp add: pulls_def)

definition flight_ok :: "('e) io_env_scheme \<Rightarrow> RepoRef \<Rightarrow> ('l, 'z) flight \<Rightarrow> bool" where
  "flight_ok E repo s \<longleftrightarrow> lock_ok s \<and> visible repo (fl_world s) \<and> pulls s \<le> Suc (fl_evictions s) \<and>
     (pulls s = Suc (fl_evictions s) \<longrightarrow> settled E repo (fl_world s))"

lemma leaves_mirror_cut: "leaves_mirror repo w w' \<Longrightarrow> cut_short E repo w w'"
  by (simp add: leaves_mirror_def cut_short_def)

lemma cut_short_refl: "cut_short E repo w w"
  by (simp add: cut_short_def)

lemma cut_short_arrive: "cut_short E repo w (touch_index L k (slot k' w))"
  by (auto simp: cut_short_def touch_index_def slot_def slot_last_def head_of_def)

lemma cut_short_settled:
  assumes "cut_short E repo w w'"
  shows "visible repo w' = visible repo w" "settled E repo w \<Longrightarrow> settled E repo w'"
  using assms by (auto simp: cut_short_def visible_def settled_def)

lemma flight_ok_same:
  assumes "flight_ok E repo s" "lock_ok s'" "cut_short E repo (fl_world s) (fl_world s')" "pulls s' = pulls s"
    "fl_evictions s' = fl_evictions s"
  shows "flight_ok E repo s'"
  using assms cut_short_settled[OF assms(3)] by (auto simp: flight_ok_def)

lemma flight_ok_step:
  assumes "git_confined E" "resolve n up root = Inr repo" "burst E cfg" "flight_step E L cfg repo s s'" "flight_ok E repo s"
  shows "flight_ok E repo s'"
proof -
  have lk: "lock_ok s'" using lock_ok_step[OF assms(4)] assms(5) by (simp add: flight_ok_def)
  from assms(4) show ?thesis
  proof cases
    case (arrive i want_fetch body)
    then show ?thesis
      using flight_ok_same[OF assms(5) lk] cut_short_arrive[of E repo "fl_world s" L "name repo" "name repo"]
        pulls_update[of i s s' "Queued want_fetch body"] by simp
  next
    case (lock i want_fetch body)
    then show ?thesis
      using flight_ok_same[OF assms(5) lk] cut_short_refl[of E repo "fl_world s"] pulls_update[of i s s' "Holding want_fetch body"] by simp
  next
    case (return i want_fetch body r w')
    have p: "pulls s' = pulls s + (if pulled (Returned r) then 1 else 0)"
      using return pulls_update[of i s s' "Returned r"] by simp
    have v: "visible repo w'" using locked_visible[OF assms(1) return(4)] assms(5) by (simp add: flight_ok_def)
    show ?thesis
    proof (cases "pulled (Returned r) \<or> pulls s = Suc (fl_evictions s)")
      case True
      then have "settled E repo w' \<and> (pulls s = Suc (fl_evictions s) \<longrightarrow> r = Inr Cached)"
        using locked_settles[OF assms(1,2) return(4)] assms(3,5) by (auto simp: flight_ok_def)
      then show ?thesis using p v lk assms(5) return(1) by (auto simp: flight_ok_def)
    next
      case False
      then show ?thesis using p v lk assms(5) return(1) by (auto simp: flight_ok_def)
    qed
  next
    case (leave i want_fetch body)
    then show ?thesis using flight_ok_same[OF assms(5) lk] cut_short_refl[of E repo "fl_world s"] pulls_update[of i s s' Gone] by simp
  next
    case (abort i want_fetch body w')
    then show ?thesis using flight_ok_same[OF assms(5) lk] pulls_update[of i s s' Gone] by simp
  next
    case (evicted r w')
    have "deny (w_fs w') = deny (w_fs (fl_world s))" using evict_outside[OF evicted(3)] by (simp add: same_outside_def)
    then show ?thesis
      using lk assms(5) evicted(1) by (simp add: flight_ok_def pulls_def visible_def)
  next
    case (others w')
    then show ?thesis using flight_ok_same[OF assms(5) lk leaves_mirror_cut] by (simp add: pulls_def)
  qed
qed

lemma flight_ok_reachable:
  assumes "git_confined E" "resolve n up root = Inr repo" "burst E cfg" "(flight_step E L cfg repo)\<^sup>*\<^sup>* s s'"
    "flight_ok E repo s"
  shows "flight_ok E repo s'"
  using assms(4,5) by (induction rule: rtranclp_induct) (auto intro: flight_ok_step[OF assms(1-3)])

section \<open>An example for the witness\<close>

definition burst_env :: io_env where
  "burst_env = sample_env\<lparr>clock := \<lambda>_. 100\<rparr>"

definition two_callers :: "((string \<times> u64) list, unit) flight" where
  "two_callers = \<lparr>fl_world = sample_world, fl_lock = None, fl_callers = [Idle True [], Idle True []], fl_evictions = 0\<rparr>"

lemma two_callers_burst: "burst burst_env sample_cfg" "git_confined burst_env"
  using sample_confined by (simp_all add: burst_def burst_env_def sample_cfg_def git_confined_def)

lemma two_callers_pull:
  "\<exists>s'. (flight_step burst_env list_lru sample_cfg sample_repo)\<^sup>*\<^sup>* two_callers s' \<and>
     fl_callers s' = [Returned (Inr Cloned), Idle True []] \<and> fl_evictions s' = 0"
proof -
  let ?w = "touch_index list_lru ''g/r'' (slot ''g/r'' sample_world)"
  let ?s1 = "two_callers\<lparr>fl_world := ?w, fl_callers := [Queued True [], Idle True []]\<rparr>"
  let ?s2 = "?s1\<lparr>fl_lock := Some 0, fl_callers := [Holding True [], Idle True []]\<rparr>"
  obtain r w' where l: "locked_section burst_env list_lru sample_cfg sample_repo True [] ?w = (r, w')" by force
  have "fst (locked_section burst_env list_lru sample_cfg sample_repo True [] ?w) = Inr Cloned" by code_simp
  then have r: "r = Inr Cloned" using l by simp
  let ?s3 = "?s2\<lparr>fl_world := w', fl_lock := None, fl_callers := [Returned r, Idle True []]\<rparr>"
  have 1: "flight_step burst_env list_lru sample_cfg sample_repo two_callers ?s1"
    using arrive[of 0 two_callers True "[]" burst_env list_lru sample_cfg sample_repo]
    by (simp add: two_callers_def sample_repo_def)
  have 2: "flight_step burst_env list_lru sample_cfg sample_repo ?s1 ?s2"
    using lock[of 0 ?s1 True "[]" burst_env list_lru sample_cfg sample_repo] by (simp add: two_callers_def)
  have 3: "flight_step burst_env list_lru sample_cfg sample_repo ?s2 ?s3"
    using return[of 0 ?s2 True "[]" burst_env list_lru sample_cfg sample_repo r w'] l by (simp add: two_callers_def)
  have "(flight_step burst_env list_lru sample_cfg sample_repo)\<^sup>*\<^sup>* two_callers ?s3"
    by (rule converse_rtranclp_into_rtranclp, rule 1, rule converse_rtranclp_into_rtranclp, rule 2, rule r_into_rtranclp, rule 3)
  then show ?thesis using r by (intro exI[of _ ?s3]) (simp add: two_callers_def)
qed

section \<open>Properties\<close>



end
