(* ===== verification/Rescan.thy ===== *)
theory Rescan
  imports Evict
begin

text \<open>
  The start-up scan of \<^verbatim>\<open>src/src/evict.rs\<close> on a cache directory whose file names are what the operating system allows: it
  names every entry once, and every name is a plain one, which leads back below the cache root.
\<close>

section \<open>What a cache directory looks like\<close>

text \<open>File names below a directory that are what the operating system allows and decode without replacement.\<close>

fun plain_component :: "component \<Rightarrow> bool" where
  "plain_component (Normal x) = (utf8_valid x \<and> CHR ''/'' \<notin> set x \<and> x \<notin> {[], ''.'', ''..''})"
| "plain_component _ = False"

definition names_ok :: "fs \<Rightarrow> fpath \<Rightarrow> bool" where
  "names_ok f root \<longleftrightarrow> (\<forall>q. fs_lookup f (root @ q) \<noteq> None \<longrightarrow> list_all plain_component q)"

lemma plain_components:
  assumes "list_all plain_component q"
  obtains xs where "q = map Normal xs" "list_all utf8_valid xs" "\<forall>x\<in>set xs. CHR ''/'' \<notin> set x"
proof -
  have "\<exists>xs. q = map Normal xs \<and> list_all utf8_valid xs \<and> (\<forall>x\<in>set xs. CHR ''/'' \<notin> set x)"
    using assms
  proof (induction q)
    case (Cons c q)
    then obtain xs where "q = map Normal xs" "list_all utf8_valid xs" "\<forall>x\<in>set xs. CHR ''/'' \<notin> set x" by auto
    moreover obtain x where "c = Normal x" "utf8_valid x" "CHR ''/'' \<notin> set x" using Cons.prems by (cases c) auto
    ultimately show ?case by (intro exI[of _ "x # xs"]) simp
  qed simp
  then show ?thesis using that by blast
qed

text \<open>The directories still to visit never lie inside each other.\<close>

definition apart :: "fpath \<Rightarrow> fpath \<Rightarrow> bool" where
  "apart p q \<longleftrightarrow> \<not> prefix p q \<and> \<not> prefix q p"

lemma apart_child: "apart p d \<Longrightarrow> apart p (child d x)"
  unfolding apart_def by (metis append_prefixD prefix_snoc)

lemma apart_children: "distinct xs \<Longrightarrow> sorted_wrt apart (map (child d) xs)"
  by (induction xs) (auto simp: apart_def prefix_def)

lemma apart_descend:
  assumes "sorted_wrt apart stack" "stack \<noteq> []" "distinct xs"
  shows "sorted_wrt apart (butlast stack @ map (child (last stack)) xs)"
proof -
  have "sorted_wrt apart (butlast stack @ [last stack])" using assms(1,2) by simp
  then show ?thesis
    using apart_children[OF assms(3)] apart_child by (auto simp: sorted_wrt_append)
qed

lemma mirror_under_prefix: "mirror_under f d m \<Longrightarrow> prefix d m"
  by (induction rule: mirror_under.induct) (auto dest: append_prefixD)

definition found :: "fs \<Rightarrow> fpath list \<Rightarrow> fpath \<Rightarrow> bool" where
  "found f stack p \<longleftrightarrow> (\<exists>d\<in>set stack. prefix d p \<and> mirror_under f d p)"

lemma found_butlast: "found f (butlast stack) p \<Longrightarrow> found f stack p"
  unfolding found_def by (meson in_set_butlastD)

lemma found_here: "stack \<noteq> [] \<Longrightarrow> fs_is_file f (child (last stack) ''HEAD'') \<Longrightarrow> found f stack (last stack)"
  unfolding found_def by (metis last_in_set mirror_under.here prefix_order.order_refl)

lemma found_descend:
  assumes "stack \<noteq> []" "\<not> fs_is_file f (child (last stack) ''HEAD'')" "fs_read_dir f (last stack) = Inr xs"
    "found f (butlast stack @ map (child (last stack)) (filter (namespace_dir f (last stack)) xs)) p"
  shows "found f stack p"
proof (cases "found f (butlast stack) p")
  case False
  then obtain x where x: "x \<in> set xs" "namespace_dir f (last stack) x" "prefix (child (last stack) x) p"
    "mirror_under f (child (last stack) x) p" using assms(4) by (auto simp: found_def)
  then have "mirror_under f (last stack) p" "prefix (last stack) p"
    using mirror_under.down[OF assms(2,3)] by (auto dest: append_prefixD)
  then show ?thesis using assms(1) unfolding found_def by force
qed (rule found_butlast)

lemma find_mirrors_loop_paths:
  assumes "sorted_wrt apart stack"
  shows "\<exists>ps. find_mirrors_loop f root stack out = out @ map (scanned_mirror f root) ps \<and> distinct ps \<and>
    (\<forall>p\<in>set ps. found f stack p)"
  using assms
proof (induction stack out rule: find_mirrors_walk[where f = f and root = root])
  case (root d stack out)
  then show ?case using found_butlast[of f "stack @ [d]"] by (auto simp: find_mirrors_loop_steps sorted_wrt_append)
next
  case (mirror d stack out)
  have "sorted_wrt apart stack" and ap: "\<forall>p\<in>set stack. apart p d" using mirror.prems by (simp_all add: sorted_wrt_append)
  then obtain ps where ps: "find_mirrors_loop f root stack (out @ [scanned_mirror f root d]) =
      (out @ [scanned_mirror f root d]) @ map (scanned_mirror f root) ps" "distinct ps" "\<forall>p\<in>set ps. found f stack p"
    using mirror.IH by blast
  have "d \<notin> set ps" using ps(3) ap by (auto simp: apart_def found_def)
  moreover have "find_mirrors_loop f root (stack @ [d]) out = out @ map (scanned_mirror f root) (d # ps)"
    using mirror.hyps ps(1) by (simp add: find_mirrors_loop_steps)
  ultimately show ?case
    using ps(2,3) found_butlast[of f "stack @ [d]"] found_here[of "stack @ [d]" f] mirror.hyps(1)
    by (intro exI[of _ "d # ps"]) simp
next
  case (closed d e stack out)
  then show ?case using found_butlast[of f "stack @ [d]"] by (auto simp: find_mirrors_loop_steps sorted_wrt_append)
next
  case (descend d xs stack out)
  have "distinct xs" using descend.hyps(2) by (simp add: fs_read_dir_Inr)
  then have "sorted_wrt apart (stack @ map (child d) (filter (namespace_dir f d) xs))"
    using apart_descend[OF descend.prems] by simp
  from descend.IH[OF this] show ?case
    using found_descend[of "stack @ [d]" f xs] descend.hyps by (auto simp: find_mirrors_loop_steps)
qed (simp add: find_mirrors_loop_steps)

text \<open>Names of mirrors.\<close>

lemma join_inject:
  assumes "join_with (CHR ''/'') xs = join_with (CHR ''/'') ys" "xs \<noteq> []" "ys \<noteq> []"
    "\<forall>x\<in>set xs. CHR ''/'' \<notin> set x" "\<forall>y\<in>set ys. CHR ''/'' \<notin> set y"
  shows "xs = ys"
  using assms split_join by metis

lemma mirror_under_head: "mirror_under f d m \<Longrightarrow> fs_lookup f (child m ''HEAD'') \<noteq> None"
  by (induction rule: mirror_under.induct) (auto dest: fs_is_file_exists simp: fs_exists_iff)

text \<open>Components that the operating system allows make a plain name.\<close>

lemma plain_join:
  assumes "xs \<noteq> []" "list_all plain_component (map Normal xs)"
  shows "plain_name (join_with (CHR ''/'') xs)"
proof -
  have p: "\<forall>x\<in>set xs. CHR ''/'' \<notin> set x \<and> x \<noteq> [] \<and> x \<noteq> ''.'' \<and> x \<noteq> ''..''" using assms(2) by (auto simp: list_all_iff)
  then have s: "split_on (CHR ''/'') (join_with (CHR ''/'') xs) = xs" using assms(1) split_join[of xs "CHR ''/''"] by simp
  have "join_with (CHR ''/'') xs \<noteq> []"
  proof
    assume "join_with (CHR ''/'') xs = []"
    then have "xs = [[]]" using s by simp
    then show False using p by simp
  qed
  then show ?thesis using p s by (simp add: plain_name_def)
qed

lemma mirror_name:
  assumes "names_ok f root" "prefix root p" "mirror_under f root p" "rel_name root p \<noteq> []"
  obtains xs where "p = root @ map Normal xs" "rel_name root p = join_with (CHR ''/'') xs" "xs \<noteq> []"
    "\<forall>x\<in>set xs. CHR ''/'' \<notin> set x" "hd xs \<noteq> LFS_OBJECTS_DIR" "plain_name (rel_name root p)"
proof -
  obtain q where q: "p = root @ q" using assms(2) by (auto simp: prefix_def)
  have "list_all plain_component (q @ [Normal ''HEAD''])"
    using mirror_under_head[OF assms(3)] assms(1) q unfolding names_ok_def by (metis append.assoc)
  then have plain: "list_all plain_component q" by simp
  then obtain xs where xs: "q = map Normal xs" "list_all utf8_valid xs" "\<forall>x\<in>set xs. CHR ''/'' \<notin> set x"
    using plain_components[OF plain] by auto
  have name: "rel_name root p = join_with (CHR ''/'') xs" using rel_name_join[OF xs(2)] q xs(1) by simp
  have ne: "xs \<noteq> []" using name assms(4) by auto
  from assms(3) have "hd xs \<noteq> LFS_OBJECTS_DIR"
  proof cases
    case here
    then show ?thesis using q xs(1) ne by simp
  next
    case (down ys x)
    have "prefix (child root x) p" using down(5) mirror_under_prefix by blast
    then have "hd xs = x" using q xs(1) ne by (cases xs) auto
    then show ?thesis
      using down(4) xs(2) ne by (cases xs) (auto simp: namespace_dir_def skipped_dir_def from_utf8_lossy_valid Let_def)
  qed
  moreover have "plain_name (rel_name root p)" using plain_join[OF ne] plain name xs(1) by simp
  ultimately show ?thesis using that q xs name ne by blast
qed

lemma distinct_mirror_names:
  assumes "names_ok f root"
  shows "distinct (map sc_name (find_mirrors f root))"
    and "n \<in> sc_name ` set (find_mirrors f root) \<Longrightarrow> hd (split_on (CHR ''/'') n) \<noteq> LFS_OBJECTS_DIR \<and> plain_name n"
proof -
  obtain ps where ps: "find_mirrors f root = map (scanned_mirror f root) ps" "distinct ps" "\<forall>p\<in>set ps. found f [root] p"
    using find_mirrors_loop_paths[of "[root]" f root "[]"] by (auto simp: find_mirrors_def)
  have ne: "rel_name root p \<noteq> []" if "p \<in> set ps" for p
  proof -
    have "scanned_mirror f root p \<in> set (find_mirrors f root)" using ps(1) that by simp
    then show ?thesis
      using find_mirrors_loop_set[of f root "[root]" "[]"] by (auto simp: find_mirrors_def scanned_mirror_def)
  qed
  have name: "\<exists>xs. p = root @ map Normal xs \<and> rel_name root p = join_with (CHR ''/'') xs \<and> xs \<noteq> [] \<and>
      (\<forall>x\<in>set xs. CHR ''/'' \<notin> set x) \<and> hd xs \<noteq> LFS_OBJECTS_DIR \<and> plain_name (rel_name root p)" if "p \<in> set ps" for p
  proof -
    have "prefix root p" "mirror_under f root p" using ps(3) that by (simp_all add: found_def)
    then show ?thesis by (rule mirror_name[OF assms]) (use ne that in blast)+
  qed
  have "inj_on (rel_name root) (set ps)"
  proof (rule inj_onI)
    fix p q assume "p \<in> set ps" "q \<in> set ps" and eq: "rel_name root p = rel_name root q"
    then obtain xs ys where "p = root @ map Normal xs" "q = root @ map Normal ys" "rel_name root p = join_with (CHR ''/'') xs"
      "rel_name root q = join_with (CHR ''/'') ys" "xs \<noteq> []" "ys \<noteq> []" "\<forall>x\<in>set xs. CHR ''/'' \<notin> set x"
      "\<forall>x\<in>set ys. CHR ''/'' \<notin> set x" using name by blast
    then show "p = q" using join_inject[of xs ys] eq by simp
  qed
  then show "distinct (map sc_name (find_mirrors f root))"
    using ps(1,2) by (simp add: distinct_map comp_def scanned_mirror_def)
  show "hd (split_on (CHR ''/'') n) \<noteq> LFS_OBJECTS_DIR \<and> plain_name n" if "n \<in> sc_name ` set (find_mirrors f root)"
  proof -
    obtain p where "p \<in> set ps" "n = rel_name root p" using \<open>n \<in> _\<close> ps(1) by (auto simp: scanned_mirror_def)
    then obtain xs where "n = join_with (CHR ''/'') xs" "xs \<noteq> []" "\<forall>x\<in>set xs. CHR ''/'' \<notin> set x" "hd xs \<noteq> LFS_OBJECTS_DIR"
      "plain_name n" using name by blast
    then show ?thesis using split_join[of xs "CHR ''/''"] by simp
  qed
qed

text \<open>Names of objects.\<close>

definition blob_name :: "string \<Rightarrow> string \<Rightarrow> string" where
  "blob_name shard x = join_with (CHR ''/'') [LFS_OBJECTS_DIR, shard, x]"

lemma blob_name_parts:
  assumes "CHR ''/'' \<notin> set shard" "CHR ''/'' \<notin> set x"
  shows "split_on (CHR ''/'') (blob_name shard x) = [LFS_OBJECTS_DIR, shard, x]"
  using assms unfolding blob_name_def by (intro split_join) (simp_all add: LFS_OBJECTS_DIR_def)

lemma scan_shard_names:
  assumes "names_ok f root"
  shows "\<exists>xs. map sc_name (scan_shard f (child root LFS_OBJECTS_DIR) s) = map (blob_name s) xs \<and> distinct xs \<and>
    (\<forall>x\<in>set xs. list_all plain_component [Normal LFS_OBJECTS_DIR, Normal s, Normal x])"
proof (cases "fs_read_dir f (child (child root LFS_OBJECTS_DIR) s)")
  case (Inl e)
  then show ?thesis by (simp add: scan_shard_def)
next
  case (Inr objects)
  let ?dir = "child (child root LFS_OBJECTS_DIR) s"
  have d: "distinct objects" "\<forall>x\<in>set objects. fs_lookup f (child ?dir x) \<noteq> None"
    using Inr by (auto simp: fs_read_dir_Inr child_names_iff)
  have plain: "list_all plain_component [Normal LFS_OBJECTS_DIR, Normal s, Normal x]" if "x \<in> set objects" for x
    using assms d(2) that unfolding names_ok_def by (metis append.assoc append_Cons append_Nil)
  let ?kept = "\<lambda>x. scan_object f ?dir (from_utf8_lossy s) x \<noteq> None"
  have names: "map sc_name (List.map_filter (scan_object f ?dir (from_utf8_lossy s)) ys) = map (blob_name s) (filter ?kept ys)"
    if "set ys \<subseteq> set objects" for ys
    using that
  proof (induction ys)
    case (Cons y ys)
    then have "from_utf8_lossy s = s" "from_utf8_lossy y = y" using plain[of y] by (simp_all add: from_utf8_lossy_valid)
    then show ?case using Cons
      by (auto simp: List.map_filter_simps scan_object_def blob_name_def split: sum.splits node.splits)
  qed (simp add: List.map_filter_simps)
  show ?thesis
  proof (cases "fs_lookup f ?dir \<noteq> Some Dir \<or> from_utf8_lossy s = INCOMING_DIR")
    case True
    then show ?thesis by (simp add: scan_shard_def)
  next
    case False
    then have "map sc_name (scan_shard f (child root LFS_OBJECTS_DIR) s) = map (blob_name s) (filter ?kept objects)"
      using Inr names by (simp add: scan_shard_def)
    then show ?thesis using d(1) plain by (intro exI[of _ "filter ?kept objects"]) auto
  qed
qed

lemma distinct_blob_names:
  assumes "names_ok f root"
  shows "distinct (map sc_name (find_lfs_blobs f root))"
    and "n \<in> sc_name ` set (find_lfs_blobs f root) \<Longrightarrow> hd (split_on (CHR ''/'') n) = LFS_OBJECTS_DIR \<and> plain_name n"
proof -
  let ?root = "child root LFS_OBJECTS_DIR"
  have parts: "\<exists>x. split_on (CHR ''/'') n = [LFS_OBJECTS_DIR, s, x] \<and> plain_name n" if "n \<in> sc_name ` set (scan_shard f ?root s)" for n s
  proof -
    obtain xs where xs: "map sc_name (scan_shard f ?root s) = map (blob_name s) xs"
      "\<forall>x\<in>set xs. list_all plain_component [Normal LFS_OBJECTS_DIR, Normal s, Normal x]" using scan_shard_names[OF assms] by blast
    then have "n \<in> blob_name s ` set xs" using that by (metis list.set_map)
    then obtain x where x: "n = blob_name s x" "list_all plain_component (map Normal [LFS_OBJECTS_DIR, s, x])" using xs(2) by auto
    then show ?thesis using blob_name_parts[of s x] plain_join[OF _ x(2)] by (simp add: blob_name_def)
  qed
  have one: "distinct (map sc_name (scan_shard f ?root s))" for s
  proof -
    obtain xs where xs: "map sc_name (scan_shard f ?root s) = map (blob_name s) xs" "distinct xs"
      using scan_shard_names[OF assms] by blast
    have "inj_on (blob_name s) (set xs)" by (intro inj_onI) (auto simp: blob_name_def)
    then show ?thesis using xs(1,2) by (simp add: distinct_map)
  qed
  have many: "distinct (map sc_name (concat (map (scan_shard f ?root) ss)))" if "distinct ss" for ss
    using that
  proof (induction ss)
    case (Cons s ss)
    have "sc_name ` set (scan_shard f ?root s) \<inter> sc_name ` set (scan_shard f ?root t) = {}" if "t \<in> set ss" for t
      using parts[of _ s] parts[of _ t] that Cons.prems by fastforce
    then show ?case using Cons one by (auto simp: image_UN)
  qed simp
  show "distinct (map sc_name (find_lfs_blobs f root))"
  proof (cases "fs_read_dir f ?root")
    case (Inr ss)
    then have "distinct ss" by (simp add: fs_read_dir_Inr)
    then show ?thesis using many Inr by (simp add: find_lfs_blobs_def)
  qed (simp add: find_lfs_blobs_def)
  show "hd (split_on (CHR ''/'') n) = LFS_OBJECTS_DIR \<and> plain_name n" if n: "n \<in> sc_name ` set (find_lfs_blobs f root)"
  proof -
    obtain s where "n \<in> sc_name ` set (scan_shard f ?root s)"
      using n by (cases "fs_read_dir f ?root") (auto simp: find_lfs_blobs_def)
    then show ?thesis using parts by fastforce
  qed
qed

lemma distinct_startup_names:
  assumes "names_ok f (components root)"
  shows "distinct (map sc_name (startup_entries f root))"
proof -
  let ?ms = "find_mirrors f (components root)" and ?bs = "find_lfs_blobs f (components root)"
  have "sc_name ` set ?ms \<inter> sc_name ` set ?bs = {}"
    using distinct_mirror_names(2)[OF assms] distinct_blob_names(2)[OF assms] by blast
  then have "distinct (map sc_name (?ms @ ?bs))"
    using distinct_mirror_names(1)[OF assms] distinct_blob_names(1)[OF assms] by simp
  then show ?thesis unfolding distinct_map startup_entries_def by simp
qed

lemma startup_names_plain:
  assumes "names_ok f (components root)" "m \<in> set (startup_entries f root)"
  shows "plain_name (sc_name m)"
  using assms(2) distinct_mirror_names(2)[OF assms(1)] distinct_blob_names(2)[OF assms(1)]
  by (auto simp: startup_entries_def)

end
