(* ===== verification/Startup.thy ===== *)
theory Startup
  imports Requests SingleFlight Rescan
begin

text \<open>
  The configuration (\<^verbatim>\<open>src/src/config.rs\<close>) and the program around the components (\<^verbatim>\<open>src/src/main.rs\<close>): what is built from the
  configuration, in which order, what a restart makes of the cache directory, and the life of the process
  from there to its shutdown. Parsing the command line and the environment is a package's work, so a run starts
  from a \<open>Config\<close>. The listener is a parameter: whether the address can be bound. Durations and readings of the
  clock count nanoseconds. Log output is not modelled.
\<close>

section \<open>Configuration\<close>

datatype LogFormat = TextLog | JsonLog

record Config =
  cf_bind :: string
  cf_cache_root :: string
  cf_upstream :: string
  cf_upstream_auth_header :: "string option"
  cf_serve_token :: "string option"
  cf_fetch_ttl_seconds :: u64
  cf_max_concurrent_requests :: nat
  cf_max_concurrent_upload_packs :: nat
  cf_max_decoded_body_mb :: u64
  cf_cache_max_mb :: u64
  cf_max_wants :: nat
  cf_git_binary :: string
  cf_big_file_threshold :: string
  cf_pack_threads :: "nat option"
  cf_pack_window_memory :: "string option"
  cf_log :: string
  cf_log_format :: LogFormat

text \<open>The defaults, for an upstream.\<close>

definition default_config :: "string \<Rightarrow> Config" where
  "default_config up =
     \<lparr>cf_bind = ''0.0.0.0:8080'', cf_cache_root = ''/var/cache/git-cache-proxy'', cf_upstream = up,
      cf_upstream_auth_header = None, cf_serve_token = None, cf_fetch_ttl_seconds = 10,
      cf_max_concurrent_requests = 64, cf_max_concurrent_upload_packs = 0, cf_max_decoded_body_mb = 512,
      cf_cache_max_mb = 0, cf_max_wants = 100, cf_git_binary = ''git'', cf_big_file_threshold = ''8m'',
      cf_pack_threads = None, cf_pack_window_memory = None, cf_log = ''info'', cf_log_format = TextLog\<rparr>"

section \<open>What is built from it\<close>

text \<open>\<open>Duration::from_secs\<close>.\<close>

definition from_secs :: "u64 \<Rightarrow> nat" where
  "from_secs s = unat s * 1000000000"

definition normalized_auth_header :: "Config \<Rightarrow> string option" where
  "normalized_auth_header cfg =
     (case map_option str_trim (cf_upstream_auth_header cfg) of
        None \<Rightarrow> None
      | Some h \<Rightarrow> if h \<noteq> [] then Some h else None)"

definition git_config :: "Config \<Rightarrow> GitConfig" where
  "git_config cfg =
     \<lparr>git_binary = cf_git_binary cfg, upstream_auth_header = normalized_auth_header cfg,
      big_file_threshold = cf_big_file_threshold cfg, fetch_ttl = from_secs (cf_fetch_ttl_seconds cfg),
      max_wants = cf_max_wants cfg, max_upload_packs = cf_max_concurrent_upload_packs cfg,
      pack_threads = cf_pack_threads cfg, pack_window_memory = cf_pack_window_memory cfg\<rparr>"

definition cache_max_bytes :: "Config \<Rightarrow> u64" where
  "cache_max_bytes cfg = saturating_mul (cf_cache_max_mb cfg) (1024 * 1024)"

definition config_upstream_base :: "Config \<Rightarrow> string" where
  "config_upstream_base cfg = trim_end_matches (cf_upstream cfg) (CHR ''/'')"

definition lfs_config :: "Config \<Rightarrow> LfsConfig" where
  "lfs_config cfg =
     \<lparr>upstream_base = config_upstream_base cfg, cache_root = cf_cache_root cfg,
      lfs_auth_header = normalized_auth_header cfg, serve_token = cf_serve_token cfg\<rparr>"

definition app_state :: "Config \<Rightarrow> AppState" where
  "app_state cfg =
     \<lparr>as_git = git_config cfg, as_lfs = lfs_config cfg, as_upstream_base = config_upstream_base cfg,
      as_cache_root = cf_cache_root cfg, as_serve_token = cf_serve_token cfg,
      as_max_decoded_body = saturating_mul (cf_max_decoded_body_mb cfg) (1024 * 1024),
      as_max_concurrent = cf_max_concurrent_requests cfg\<rparr>"

text \<open>The index is built only when there is a cap; building it scans the cache directory.\<close>

definition build_index :: "'l lru_ops \<Rightarrow> Config \<Rightarrow> ('l, 'z) cache_world_scheme \<Rightarrow> ('l, 'z) cache_world_scheme" where
  "build_index L cfg w =
     (if cf_cache_max_mb cfg > 0
      then (case CacheIndex_new L (w_fs w) (cf_cache_root cfg) (cache_max_bytes cfg) of
              (idx, calls) \<Rightarrow> metric calls (w\<lparr>w_index := Some idx\<rparr>))
      else w\<lparr>w_index := None\<rparr>)"

text \<open>\<open>GitCache::new\<close> and \<open>Lfs::new\<close>: no slots, and a fresh counter.\<close>

definition fresh_caches :: "('l, 'z) lfs_world_scheme \<Rightarrow> ('l, 'z) lfs_world_scheme" where
  "fresh_caches w = w\<lparr>w_slots := Map.empty, l_slots := {}, l_tmp_counter := 0\<rparr>"

section \<open>The program\<close>

text \<open>Up to the point where requests are accepted.\<close>

definition startup ::
  "('e) io_env_scheme \<Rightarrow> 'l lru_ops \<Rightarrow> (string \<Rightarrow> io_error + unit) \<Rightarrow> Config \<Rightarrow> ('l, 'z) lfs_world_scheme \<Rightarrow>
     (error + AppState) \<times> ('l, 'z) lfs_world_scheme" where
  "startup E L listen cfg w =
     (case io_context (''create cache root '' @ cf_cache_root cfg) (io_create_dir_all E (cf_cache_root cfg)) w of
        (Inl e, w1) \<Rightarrow> (Inl e, w1)
      | (Inr _, w1) \<Rightarrow>
          let w2 = metric (set_config (cache_max_bytes cfg) (cf_fetch_ttl_seconds cfg)) w1;
              w3 = fresh_caches (build_index L cfg w2);
              w4 = io_ignore (io_remove_dir_all E (lfs_incoming (lfs_config cfg))) w3 in
          (case listen (cf_bind cfg) of
             Inl e \<Rightarrow> (Inl (IoFail (''bind '' @ cf_bind cfg) e), w4)
           | Inr _ \<Rightarrow> (Inr (app_state cfg), w4)))"

text \<open>
  A day of the proxy: requests in the order in which they are served, each with what other tasks do while it waits for the
  lock of an object, and whether the reconcile interval has elapsed after it. When serving ends without an error
  the background task is told to stop.
\<close>

definition day ::
  "('e) srv_env_scheme \<Rightarrow> 'l lru_ops \<Rightarrow> AppState \<Rightarrow> io_error + unit \<Rightarrow>
     (request \<times> (('l, 'z) lfs_world_scheme \<Rightarrow> ('l, 'z) lfs_world_scheme) \<times> bool) list \<Rightarrow>
     ((('l, 'z) lfs_world_scheme \<Rightarrow> ('l, 'z) lfs_world_scheme) \<times> bool \<times> bool) list" where
  "day E L st ended reqs =
     map (\<lambda>(req, others, tick). (\<lambda>w. snd (router E L st req others w), False, tick)) reqs @
     (case ended of Inl _ \<Rightarrow> [] | Inr _ \<Rightarrow> [(\<lambda>w. w, True, False)])"

definition main_until ::
  "('e) srv_env_scheme \<Rightarrow> 'l lru_ops \<Rightarrow> (string \<Rightarrow> io_error + unit) \<Rightarrow> io_error + unit \<Rightarrow>
     (request \<times> (('l, 'z) lfs_world_scheme \<Rightarrow> ('l, 'z) lfs_world_scheme) \<times> bool) list \<Rightarrow>
     Config \<Rightarrow> ('l, 'z) lfs_world_scheme \<Rightarrow> ((error + unit) \<times> ('l, 'z) lfs_world_scheme) option" where
  "main_until E L listen ended reqs cfg w =
     (case startup E L listen cfg w of
        (Inl e, w1) \<Rightarrow> Some (Inl e, w1)
      | (Inr st, w1) \<Rightarrow>
          let result = (case ended of Inl e \<Rightarrow> Inl (IoFail ''http server'' e) | Inr _ \<Rightarrow> Inr ()) in
          (case w_index w1 of
             None \<Rightarrow> Some (result, fold (\<lambda>(others, _). others) (day E L st ended reqs) w1)
           | Some idx \<Rightarrow>
               (case run E L (day E L st ended reqs) idx w1 of
                  None \<Rightarrow> None
                | Some (stopped, w2) \<Rightarrow> Some (result, w2))))"

section \<open>Until the shutdown signal\<close>

text \<open>
  \<open>shutdown_signal\<close>: whether the future has completed when these signals have arrived, for the results of installing the two
  handlers. It races the two signals; waiting for the interrupt also ends, at once, when its handler cannot be
  installed, while waiting for the termination signal never ends then.
\<close>

datatype os_signal = Interrupt | Terminate | OtherSignal

definition shutdown_signal :: "io_error + unit \<Rightarrow> io_error + unit \<Rightarrow> os_signal list \<Rightarrow> bool" where
  "shutdown_signal ctrl_c_installed term_installed sigs \<longleftrightarrow>
     (let ctrl_c = (case ctrl_c_installed of Inl _ \<Rightarrow> True | Inr _ \<Rightarrow> Interrupt \<in> set sigs);
          term = (case term_installed of Inl _ \<Rightarrow> False | Inr _ \<Rightarrow> Terminate \<in> set sigs)
      in ctrl_c \<or> term)"

text \<open>What arrives while the server runs. It accepts requests until the future completes and finishes those it has accepted.\<close>

datatype 'r arrival = Arrives 'r | Signalled os_signal

fun accepted :: "(os_signal list \<Rightarrow> bool) \<Rightarrow> os_signal list \<Rightarrow> 'r arrival list \<Rightarrow> 'r list \<times> bool" where
  "accepted stop seen [] = ([], stop seen)"
| "accepted stop seen (a # as) =
     (if stop seen then ([], True)
      else (case a of
              Signalled s \<Rightarrow> accepted stop (seen @ [s]) as
            | Arrives r \<Rightarrow> (case accepted stop seen as of (rs, stopped) \<Rightarrow> (r # rs, stopped))))"

text \<open>The program: \<open>failure\<close> is what ends serving when no shutdown does.\<close>

definition main_proxy ::
  "('e) srv_env_scheme \<Rightarrow> 'l lru_ops \<Rightarrow> (string \<Rightarrow> io_error + unit) \<Rightarrow> io_error + unit \<Rightarrow> io_error + unit \<Rightarrow> io_error \<Rightarrow>
     (request \<times> (('l, 'z) lfs_world_scheme \<Rightarrow> ('l, 'z) lfs_world_scheme) \<times> bool) arrival list \<Rightarrow>
     Config \<Rightarrow> ('l, 'z) lfs_world_scheme \<Rightarrow> ((error + unit) \<times> ('l, 'z) lfs_world_scheme) option" where
  "main_proxy E L listen ctrl_c_installed term_installed failure arrivals cfg w =
     (case accepted (shutdown_signal ctrl_c_installed term_installed) [] arrivals of
        (reqs, stopped) \<Rightarrow> main_until E L listen (if stopped then Inr () else Inl failure) reqs cfg w)"

fun signals_of :: "'r arrival list \<Rightarrow> os_signal list" where
  "signals_of [] = []"
| "signals_of (Signalled s # as) = s # signals_of as"
| "signals_of (Arrives r # as) = signals_of as"

lemma shutdown_signal_mono:
  "shutdown_signal c t xs \<Longrightarrow> set xs \<subseteq> set ys \<Longrightarrow> shutdown_signal c t ys"
  by (cases c; cases t) (auto simp: shutdown_signal_def)

lemma accepted_stops: "snd (accepted (shutdown_signal c t) seen as) = shutdown_signal c t (seen @ signals_of as)"
proof (induction as arbitrary: seen)
  case (Cons a as)
  have "shutdown_signal c t (seen @ signals_of (a # as))" if "shutdown_signal c t seen"
    using that by (rule shutdown_signal_mono) simp
  then show ?case using Cons by (cases a) (simp_all add: case_prod_beta)
qed simp

lemma accepted_all:
  assumes "list_all (\<lambda>a. case a of Arrives r \<Rightarrow> P r | Signalled _ \<Rightarrow> True) as" "accepted stop seen as = (rs, stopped)"
  shows "list_all P rs"
  using assms
proof (induction as arbitrary: seen rs)
  case (Cons a as)
  then show ?case by (cases a) (auto split: if_splits prod.splits)
qed simp

section \<open>What start-up leaves\<close>

lemma create_dirs_other: "fs_create_dirs ps f = (r, f') \<Longrightarrow> q \<notin> set ps \<Longrightarrow> fs_lookup f' q = fs_lookup f q"
  by (induction ps arbitrary: f) (auto simp: fs_lookup_put split: option.splits node.splits)

lemma names_ok_create:
  assumes "names_ok f root" "fs_create_dir_all root f = (r, f')"
  shows "names_ok f' root"
  unfolding names_ok_def
proof (intro allI impI)
  fix q assume q: "fs_lookup f' (root @ q) \<noteq> None"
  show "list_all plain_component q"
  proof (cases "q = []")
    case False
    then have "root @ q \<notin> set (filter (\<lambda>q. q \<noteq> []) (prefixes root))" by (auto simp: in_set_prefixes prefix_def)
    then have "fs_lookup f' (root @ q) = fs_lookup f (root @ q)"
      using create_dirs_other assms(2) unfolding fs_create_dir_all_def by blast
    then show ?thesis using assms(1) q by (simp add: names_ok_def)
  qed simp
qed

lemma trim_end_idem [simp]: "trim_end_matches (trim_end_matches s c) c = trim_end_matches s c"
  by (simp add: trim_end_matches_def dropWhile_idem)

lemma io_only_lfs: "io_only w w' \<Longrightarrow> l_slots w' = l_slots w"
  by (cases w; cases w') (simp add: io_only_iff)

lemma startup_Inr:
  assumes "startup E L listen cfg w = (Inr st, w')"
  obtains f1 where "fs_create_dir_all (components (cf_cache_root cfg)) (w_fs w) = (Inr (), f1)"
    "st = app_state cfg" "w_slots w' = Map.empty" "l_slots w' = {}"
    "w_index w' = (if cf_cache_max_mb cfg > 0
       then Some (fst (CacheIndex_new L f1 (cf_cache_root cfg) (cache_max_bytes cfg))) else None)"
    "same_outside [components (lfs_incoming (lfs_config cfg))] f1 (w_fs w')"
proof -
  let ?incoming = "lfs_incoming (lfs_config cfg)"
  obtain w1 where c: "io_create_dir_all E (cf_cache_root cfg) w = (Inr (), w1)"
    using assms by (auto simp: startup_def io_context_def split: prod.splits sum.splits)
  let ?w3 = "fresh_caches (build_index L cfg (metric (set_config (cache_max_bytes cfg) (cf_fetch_ttl_seconds cfg)) w1))"
  obtain r4 w4 where d: "io_remove_dir_all E ?incoming ?w3 = (r4, w4)" by force
  have st: "st = app_state cfg" "w' = w4"
    using assms c d by (auto simp: startup_def io_context_def io_ignore_def split: sum.splits)
  have w3: "w_fs ?w3 = w_fs w1" "w_slots ?w3 = Map.empty" "l_slots ?w3 = {}"
    "w_index ?w3 = (if cf_cache_max_mb cfg > 0
       then Some (fst (CacheIndex_new L (w_fs w1) (cf_cache_root cfg) (cache_max_bytes cfg))) else None)"
    by (auto simp: fresh_caches_def build_index_def split: prod.split)
  have only: "io_only ?w3 w4" using io_only_remove[OF d] .
  have "w_slots w4 = w_slots ?w3" "w_index w4 = w_index ?w3" "l_slots w4 = l_slots ?w3"
    using io_only_cache[OF only] io_only_lfs[OF only] by simp_all
  moreover have "fs_create_dir_all (components (cf_cache_root cfg)) (w_fs w) = (Inr (), w_fs w1)"
    using syscall_Inr[OF c] by simp
  ultimately show ?thesis
    using that[of "w_fs w1"] st w3 same_outside_io_remove_dir_all[OF d] by simp
qed

lemma index_new_calm:
  assumes "lru_laws L" "names_ok f (components root)" "CacheIndex_new L f root cap = (idx, calls)"
  shows "calm L idx" "ci_root idx = root" "ci_max_bytes idx = cap"
    "entries_of L idx = map (\<lambda>m. (sc_name m, sc_size m)) (rev (startup_entries f root))"
proof -
  note new = lru_laws.CacheIndex_new_refines[OF assms(1) distinct_startup_names[OF assms(2)] assms(3)]
  show "calm L idx" "ci_root idx = root" "ci_max_bytes idx = cap"
    using new by (simp_all add: calm_def pending_def index_ok_def inner_ok_def)
  show "entries_of L idx = map (\<lambda>m. (sc_name m, sc_size m)) (rev (startup_entries f root))"
    using new by (simp add: rev_map)
qed

lemma startup_index:
  assumes "lru_laws L" "names_ok (w_fs w) (components (cf_cache_root cfg))" "startup E L listen cfg w = (Inr st, w')"
    "cf_cache_max_mb cfg > 0"
  shows "\<exists>idx. w_index w' = Some idx \<and> calm L idx"
proof -
  from assms(3) obtain f1 where f1: "fs_create_dir_all (components (cf_cache_root cfg)) (w_fs w) = (Inr (), f1)"
    "w_index w' = Some (fst (CacheIndex_new L f1 (cf_cache_root cfg) (cache_max_bytes cfg)))"
    using assms(4) by (elim startup_Inr) simp
  show ?thesis
    using index_new_calm(1)[OF assms(1) names_ok_create[OF assms(2) f1(1)] prod.collapse[symmetric]] f1(2) by blast
qed

lemma day_relied:
  assumes "lru_laws L" "list_all (\<lambda>(_, others, _). rely L others) reqs"
  shows "list_all (\<lambda>(others, _). rely L others) (day E L st ended reqs)"
    "list_ex (\<lambda>(_, shutdown, _). shutdown) (day E L st ended reqs) \<longleftrightarrow> \<not> isl ended"
proof -
  have "rely L (\<lambda>w. snd (router E L st req others w))" if "(req, others, tick) \<in> set reqs" for req others tick
    using assms(2) that by (intro lru_laws.router_relied[OF assms(1)]) (auto simp: list_all_iff)
  moreover have "rely L (\<lambda>w. w)" by (simp add: rely_def)
  ultimately show "list_all (\<lambda>(others, _). rely L others) (day E L st ended reqs)"
    by (auto simp: day_def list_all_iff split: sum.split)
  have "\<not> list_ex (\<lambda>(_, shutdown, _). shutdown)
      (map (\<lambda>(req, others, tick). (\<lambda>w. snd (router E L st req others w), False, tick)) rs)" for rs
    by (induction rs) auto
  then show "list_ex (\<lambda>(_, shutdown, _). shutdown) (day E L st ended reqs) \<longleftrightarrow> \<not> isl ended"
    by (cases ended) (simp_all add: day_def)
qed

lemma app_state_fields:
  "as_lfs (app_state cfg) = lfs_config cfg" "as_git (app_state cfg) = git_config cfg"
  "as_cache_root (app_state cfg) = cf_cache_root cfg" "as_serve_token (app_state cfg) = cf_serve_token cfg"
  "as_upstream_base (app_state cfg) = config_upstream_base cfg" "cache_root (lfs_config cfg) = cf_cache_root cfg"
  "lfs_auth_header (lfs_config cfg) = normalized_auth_header cfg" "serve_token (lfs_config cfg) = cf_serve_token cfg"
  "upstream_auth_header (git_config cfg) = normalized_auth_header cfg"
  by (simp_all add: app_state_def lfs_config_def git_config_def)

section \<open>The run of the program\<close>

lemma main_until_ends:
  assumes "lru_laws L" "names_ok (w_fs w) (components (cf_cache_root cfg))"
    "list_all (\<lambda>(_, others, _). rely L others) reqs"
  shows "\<exists>r w'. main_until E L listen ended reqs cfg w = Some (r, w') \<and>
    (case startup E L listen cfg w of
       (Inl e, w1) \<Rightarrow> r = Inl e \<and> w' = w1
     | (Inr st, w1) \<Rightarrow>
         r = (case ended of Inl e \<Rightarrow> Inl (IoFail ''http server'' e) | Inr _ \<Rightarrow> Inr ()) \<and>
         (cf_cache_max_mb cfg > 0 \<longrightarrow>
            (\<exists>idx. w_index w' = Some idx \<and> index_ok L idx \<and> (isl ended \<longrightarrow> \<not> pending idx))))"
proof -
  obtain r1 w1 where s: "startup E L listen cfg w = (r1, w1)" by force
  show ?thesis
  proof (cases r1)
    case (Inl e)
    then show ?thesis using s by (simp add: main_until_def)
  next
    case (Inr st)
    note s = s[unfolded Inr]
    show ?thesis
    proof (cases "cf_cache_max_mb cfg > 0")
      case True
      obtain idx where idx: "w_index w1 = Some idx" "calm L idx"
        using startup_index[OF assms(1,2) s True] by blast
      obtain b w2 idx2 where "run E L (day E L st ended reqs) idx w1 = Some (b, w2)" "w_index w2 = Some idx2" "index_ok L idx2"
        "b \<longleftrightarrow> \<not> isl ended" "b \<or> \<not> pending idx2"
        using lru_laws.run_quiet[OF assms(1) _ day_relied(1)[OF assms(1,3)], of idx E E st ended w1]
          day_relied(2)[OF assms(1,3), of E st ended] idx(2) by (auto simp: calm_def)
      then show ?thesis using s True idx(1) by (auto simp: main_until_def Let_def)
    next
      case False
      then have "w_index w1 = None" using s by (elim startup_Inr) simp
      then show ?thesis using s False by (simp add: main_until_def Let_def)
    qed
  qed
qed

section \<open>An example for the witnesses\<close>

definition sample_config :: Config where
  "sample_config = (default_config ''https://up/'')\<lparr>cf_cache_root := ''/c'', cf_cache_max_mb := 1,
     cf_upstream_auth_header := Some '' ''\<rparr>"

definition sample_day :: "(request \<times> ((string \<times> u64) list lfs_world \<Rightarrow> (string \<times> u64) list lfs_world) \<times> bool) list" where
  "sample_day = [(sample_get ''/g/r/info/refs'' ''service=git-upload-pack'', \<lambda>w. w, True),
     (sample_get ''/healthz'' [], \<lambda>w. w, False)]"

lemma names_okI:
  assumes "list_all (\<lambda>(q, _). prefix root q \<longrightarrow> list_all plain_component (drop (length root) q)) (entries f)"
  shows "names_ok f root"
  unfolding names_ok_def
proof (intro allI impI)
  fix q assume "fs_lookup f (root @ q) \<noteq> None"
  then obtain n where "(root @ q, n) \<in> set (entries f)" by (auto simp: fs_lookup_def dest: map_of_SomeD)
  then show "list_all plain_component q" using assms by (force simp: list_all_iff)
qed

lemma sample_names_ok: "names_ok (w_fs sample_lfs_world) (components (cf_cache_root sample_config))"
  by (rule names_okI) code_simp

lemma startup_succeeds:
  assumes "fs_create_dir_all (components (cf_cache_root cfg)) (w_fs w) = (Inr (), f)" "\<not> fault E (w_tick w)"
    "listen (cf_bind cfg) = Inr ()"
  shows "\<exists>w'. startup E L listen cfg w = (Inr (app_state cfg), w')"
  using assms by (simp add: startup_def io_context_def syscall_def Let_def)

lemma sample_started:
  "\<exists>w'. startup sample_srv_env list_lru (\<lambda>_. Inr ()) sample_config sample_lfs_world = (Inr (app_state sample_config), w')"
proof (rule startup_succeeds)
  show "fs_create_dir_all (components (cf_cache_root sample_config)) (w_fs sample_lfs_world) = (Inr (), w_fs sample_lfs_world)"
    by code_simp
  show "\<not> fault sample_srv_env (w_tick sample_lfs_world)"
    by (simp add: sample_srv_env_def sample_lfs_env_def sample_env_def lfs_env.defs srv_env.defs)
qed simp

section \<open>Properties\<close>

text \<open>C18: Start-up. When it succeeds, whatever the cache directory held: the handlers, the mirror cache and the object
  cache agree on the cache root, the credential and the serve token; a credential that is set but blank is
  no credential; the address of a repository and of its object endpoint have the same base, however many slashes
  the configured one ends with. Without a cap there is no index. With one the index is consistent, holds everything the scan
  found, most recently modified first, each under one name, and the background task is awake if there is too much.
  Nothing that existed is changed but the downloads a crash left behind.\<close>

theorem startup_ready:
  assumes "lru_laws L" "names_ok (w_fs w) (components (cf_cache_root cfg))" "startup E L listen cfg w = (Inr st, w')"
  shows "cache_root (as_lfs st) = as_cache_root st \<and> lfs_auth_header (as_lfs st) = upstream_auth_header (as_git st) \<and>
    serve_token (as_lfs st) = as_serve_token st \<and> upstream_auth_header (as_git st) \<noteq> Some [] \<and>
    (\<forall>n repo. resolve n (as_upstream_base st) (as_cache_root st) = Inr repo \<longrightarrow>
       batch_url (as_lfs st) n = upstream_url repo @ ''/info/lfs/objects/batch'') \<and>
    (cf_cache_max_mb cfg = 0 \<longrightarrow> w_index w' = None) \<and>
    (cf_cache_max_mb cfg > 0 \<longrightarrow> (\<exists>idx f. w_index w' = Some idx \<and> index_ok L idx \<and> ci_root idx = as_cache_root st \<and>
       ci_max_bytes idx = cache_max_bytes cfg \<and>
       fs_create_dir_all (components (as_cache_root st)) (w_fs w) = (Inr (), f) \<and>
       entries_of L idx = map (\<lambda>m. (sc_name m, sc_size m)) (rev (startup_entries f (as_cache_root st))) \<and>
       (in_total (ci_state idx) > ci_max_bytes idx \<longrightarrow> ci_work idx))) \<and>
    (\<forall>q n. fs_lookup (w_fs w) q = Some n \<and> \<not> prefix (components (lfs_incoming (as_lfs st))) q \<longrightarrow>
       fs_lookup (w_fs w') q = Some n)"
proof -
  from assms(3) obtain f where f: "fs_create_dir_all (components (cf_cache_root cfg)) (w_fs w) = (Inr (), f)"
    and st: "st = app_state cfg"
    and idx: "w_index w' = (if cf_cache_max_mb cfg > 0
       then Some (fst (CacheIndex_new L f (cf_cache_root cfg) (cache_max_bytes cfg))) else None)"
    and out: "same_outside [components (lfs_incoming (lfs_config cfg))] f (w_fs w')" by (rule startup_Inr)
  note new = index_new_calm[OF assms(1) names_ok_create[OF assms(2) f] prod.collapse[symmetric], of "cache_max_bytes cfg"]
  have "fs_lookup (w_fs w') q = Some n"
    if "fs_lookup (w_fs w) q = Some n" "\<not> prefix (components (lfs_incoming (lfs_config cfg))) q" for q n
    using create_keeps_file[OF f that(1)] same_outsideD[OF out] that(2) by simp
  moreover have "batch_url (lfs_config cfg) n = upstream_url repo @ ''/info/lfs/objects/batch''"
    if "resolve n (config_upstream_base cfg) (cf_cache_root cfg) = Inr repo" for n repo
    using that by (auto simp: resolve_Inr_iff batch_url_def lfs_config_def config_upstream_base_def trim_end_idem)
  moreover have "normalized_auth_header cfg \<noteq> Some []" by (auto simp: normalized_auth_header_def split: option.split)
  ultimately show ?thesis
    using idx f new
    by (simp add: st app_state_fields calm_def pending_def split: if_splits)
qed

theorem startup_ready_witness:
  "\<exists>st w'. startup sample_srv_env list_lru (\<lambda>_. Inr ()) sample_config sample_lfs_world = (Inr st, w') \<and>
     upstream_auth_header (as_git st) \<noteq> Some [] \<and> w_index w' \<noteq> None"
proof -
  obtain w' where s: "startup sample_srv_env list_lru (\<lambda>_. Inr ()) sample_config sample_lfs_world = (Inr (app_state sample_config), w')"
    using sample_started by blast
  have "cf_cache_max_mb sample_config > 0" by (simp add: sample_config_def)
  then show ?thesis
    using startup_ready[OF list_lru.lru_laws_axioms sample_names_ok s] s by auto
qed



end
