(* ===== verification/Safety.thy ===== *)
theory Safety
  imports Startup
begin

text \<open>
  What holds over the whole life of the process, whatever the components do to each other. The index holds
  only names that lead below the cache root (\<open>index_named\<close>), so that the background task removes nothing outside it; every
  step of every task leaves what lies outside the cache root as it is and keeps the object store sound
  (\<open>safe_step\<close>). What other tasks do while one waits is no assumption here but any of the program's own
  activities (\<open>activity\<close>).
\<close>

section \<open>The names in the index\<close>

definition index_named :: "'l lru_ops \<Rightarrow> string \<Rightarrow> 'l CacheIndex \<Rightarrow> bool" where
  "index_named L root idx \<longleftrightarrow> index_ok L idx \<and> ci_root idx = root \<and> (\<forall>k \<in> set (keys (entries_of L idx)). plain_name k)"

definition named :: "'l lru_ops \<Rightarrow> string \<Rightarrow> 'l CacheIndex option \<Rightarrow> bool" where
  "named L root i \<longleftrightarrow> (\<forall>idx. i = Some idx \<longrightarrow> index_named L root idx)"

fun plain_op :: "index_op \<Rightarrow> bool" where
  "plain_op (RecordBlob k sz) = plain_name k"
| "plain_op (MarkChanged k) = plain_name k"
| "plain_op op = True"

lemma keep_under_keys: "set (keys (keep_under cap xs)) \<subseteq> set (keys xs)"
  by (induction cap xs rule: keep_under.induct) (subst keep_under.simps, auto dest: in_set_butlastD)

lemma key_in: "(a, b) \<in> set xs \<Longrightarrow> a \<in> set (keys xs)"
  by force

lemma entry_key:
  "(a, b) \<in> set (promote k xs) \<Longrightarrow> a \<in> set (keys xs)" "(a, b) \<in> set (drop_key k xs) \<Longrightarrow> a \<in> set (keys xs)"
  "(a, b) \<in> set (keep_under cap xs) \<Longrightarrow> a \<in> set (keys xs)" "(a, b) \<in> set (overwrite k v xs) \<Longrightarrow> a \<in> set (keys xs)"
proof -
  show "a \<in> set (keys xs)" if "(a, b) \<in> set (promote k xs)" using key_in[OF that] by (simp only: set_keys_promote)
  show "a \<in> set (keys xs)" if "(a, b) \<in> set (drop_key k xs)" using that key_in[of a b xs] by (simp add: set_drop_key)
  show "a \<in> set (keys xs)" if "(a, b) \<in> set (keep_under cap xs)" using key_in[OF that] keep_under_keys by blast
  show "a \<in> set (keys xs)" if "(a, b) \<in> set (overwrite k v xs)" using key_in[OF that] by (simp only: keys_overwrite)
qed

lemma spec_step_plain:
  assumes "plain_op op" "\<forall>k \<in> set (keys xs). plain_name k"
  shows "\<forall>k \<in> set (keys (fst (spec_step cap op (xs, D)))). plain_name k"
  using assms by (cases op) (auto dest!: entry_key)

context lru_laws begin

lemma step_named:
  assumes "plain_op op" "index_named L root idx"
  shows "\<exists>idx' cs. index_step L op idx = Some (idx', cs) \<and> index_named L root idx'"
proof -
  have ok: "index_ok L idx" using assms(2) by (simp add: index_named_def)
  obtain idx' cs where s: "index_step L op idx = Some (idx', cs)" "index_ok L idx'"
    "index_abs L idx' = spec_step (ci_max_bytes idx) op (index_abs L idx)" "ci_root idx' = ci_root idx"
    using index_step_refines[OF ok, of op] by blast
  have "entries_of L idx' = fst (spec_step (ci_max_bytes idx) op (entries_of L idx, in_dirty (ci_state idx)))"
    using s(3) by (metis fst_conv index_abs_def)
  then show ?thesis
    using s spec_step_plain[OF assms(1), of "entries_of L idx"] assms(2) by (simp add: index_named_def)
qed

lemma does_keeps_named: "index_does L op w w' \<Longrightarrow> plain_op op \<Longrightarrow> keeps_index (named L root) w w'"
proof (erule keeps_index_does)
  fix i assume "plain_op op" "named L root i"
  then show "named L root (Option.bind i (\<lambda>idx. map_option fst (index_step L op idx)))"
    using step_named[of op root] by (cases i) (fastforce simp: named_def)+
qed

lemmas named_ops = mirror_ops[THEN does_keeps_named, simplified] blob_op[THEN does_keeps_named, simplified]

end

sublocale lru_laws < named: fresh_frame E L cfg repo
    "\<lambda>w w'. plain_name (name repo) \<longrightarrow> keeps_index (named L root) w w'" for E cfg repo root
  by unfold_locales (auto simp: set_last_def intro: keeps_index_same keeps_index_trans keeps_index_start named_ops
      dest: index_git index_syscall index_run_upstream)

lemma resolved_plain: "resolve n up root = Inr repo \<Longrightarrow> plain_name (name repo)"
  by (auto simp: resolve_Inr_iff)

sublocale lru_laws < named_requests: handler_frame E L "keeps_index (named L root)" for E root
  by unfold_locales
    (auto intro: keeps_index_same keeps_index_trans named_ops plain_lfs_object_key dest: index_git
      named.ensure_fresh_frame[THEN mp, OF _ resolved_plain])

section \<open>Steps on files\<close>

text \<open>What lies outside the cache root is left alone, and the object store stays sound.\<close>

definition safe_step :: "('e) lfs_env_scheme \<Rightarrow> LfsConfig \<Rightarrow> fs \<Rightarrow> fs \<Rightarrow> bool" where
  "safe_step E cfg f f' \<longleftrightarrow> keeps_outside [components (cache_root cfg)] f f' \<and>
     (store_sound E cfg f \<longrightarrow> store_sound E cfg f')"

lemma safe_step_refl [simp]: "safe_step E cfg f f"
  by (simp add: safe_step_def)

lemma safe_step_trans: "safe_step E cfg f g \<Longrightarrow> safe_step E cfg g h \<Longrightarrow> safe_step E cfg f h"
  unfolding safe_step_def using keeps_outside_trans by blast

lemma safe_step_no_new:
  "keeps_outside [components (cache_root cfg)] f f' \<Longrightarrow> no_new_objects cfg f f' \<Longrightarrow> safe_step E cfg f f'"
  unfolding safe_step_def using store_sound_no_new by blast

text \<open>Steps below directories that lie in the cache root beside the store.\<close>

definition beside_store :: "LfsConfig \<Rightarrow> fpath \<Rightarrow> bool" where
  "beside_store cfg p \<longleftrightarrow> prefix (components (cache_root cfg)) p \<and> (\<forall>oid. valid_lfs_oid oid \<longrightarrow> \<not> prefix p (object_path cfg oid))"

lemma safe_step_beside:
  assumes "keeps_outside ps f f'" "\<forall>p\<in>set ps. beside_store cfg p"
  shows "safe_step E cfg f f'"
proof (rule safe_step_no_new)
  have "\<not> prefix (components (cache_root cfg)) q \<Longrightarrow> \<forall>p\<in>set ps. \<not> prefix p q" for q
    using assms(2) prefix_order.trans unfolding beside_store_def by blast
  then show "keeps_outside [components (cache_root cfg)] f f'" using assms(1) by (simp add: keeps_outside_def)
  have "kept_at (object_path cfg oid) f f'" if "valid_lfs_oid oid" for oid
    using assms that unfolding keeps_outside_def beside_store_def by blast
  then show "no_new_objects cfg f f'" by (fastforce simp: no_new_objects_def kept_at_def)
qed

definition outside_store :: "string \<Rightarrow> bool" where
  "outside_store n \<longleftrightarrow> plain_name n \<and> hd (split_on (CHR ''/'') n) \<noteq> LFS_OBJECTS_DIR"

lemma beside_storeI: "outside_store n \<Longrightarrow> beside_store cfg (components (path_join (cache_root cfg) n))"
  by (cases "split_on (CHR ''/'') n") (auto simp: outside_store_def beside_store_def components_join object_path_def)

lemma outside_store_suffix:
  assumes "outside_store n" "reserved_suffix s"
  shows "outside_store (n @ s)"
proof -
  let ?xs = "split_on (CHR ''/'') n"
  have "hd (butlast ?xs @ [last ?xs @ s]) \<noteq> LFS_OBJECTS_DIR"
  proof (cases "butlast ?xs")
    case Nil
    have len: "length LFS_OBJECTS_DIR < length (last ?xs @ s)"
      using assms(2) by (auto simp: reserved_suffix_def INCOMING_SUFFIX_def EVICTING_SUFFIX_def LFS_OBJECTS_DIR_def)
    have "last ?xs @ s \<noteq> LFS_OBJECTS_DIR"
    proof
      assume e: "last ?xs @ s = LFS_OBJECTS_DIR"
      show False using len unfolding e by simp
    qed
    then show ?thesis using Nil by simp
  next
    case (Cons y ys)
    then have "hd ?xs = y" by (cases ?xs) (auto split: if_splits)
    then show ?thesis using Cons assms(1) by (simp add: outside_store_def)
  qed
  then show ?thesis
    using assms plain_name_suffix reserved_suffix_facts(1)[OF assms(2)] by (simp add: outside_store_def split_on_append_last)
qed

lemma suffixed_beside:
  assumes "outside_store n" "reserved_suffix s"
  shows "beside_store cfg (components (path_join (cache_root cfg) n @ s))"
  using beside_storeI[OF outside_store_suffix[OF assms]] path_join_append[of n] assms(1)
  by (simp add: outside_store_def)

lemma resolved_outside:
  assumes "resolve n up root = Inr repo"
  shows "outside_store n" "cache_dir repo = path_join root n"
proof -
  have r: "plain_name n" "\<not> contains n LFS_OBJECTS_DIR" using assms by (simp_all add: resolve_Inr_iff reserved_free_def)
  have "hd (split_on (CHR ''/'') n) \<in> set (split_on (CHR ''/'') n)" by simp
  then have "contains n (hd (split_on (CHR ''/'') n))" by (rule split_on_contains)
  then show "outside_store n" using r by (auto simp: outside_store_def)
  show "cache_dir repo = path_join root n" using assms by (simp add: resolve_Inr_iff)
qed

lemma mirror_safe:
  assumes "touches_mirror st f f'" "as_cache_root st = cache_root cfg"
  shows "safe_step E cfg f f'"
proof (cases "f' = f")
  case False
  then obtain n repo where r: "resolve n (as_upstream_base st) (cache_root cfg) = Inr repo" "keeps_outside (repo_trees repo) f f'"
    using assms by (auto simp: touches_mirror_def)
  then show ?thesis
    using safe_step_beside[OF r(2), of cfg E] beside_storeI[of n cfg] suffixed_beside[of n INCOMING_SUFFIX cfg]
      resolved_outside[OF r(1)] by (simp add: staging_dir_def reserved_suffix_def)
qed simp

text \<open>System calls, by what they do to the files.\<close>

lemma safe_syscall:
  assumes "syscall E' op w = (r, w')" "\<And>r f'. op (w_fs w) = (r, f') \<Longrightarrow> safe_step E cfg (w_fs w) f'"
  shows "safe_step E cfg (w_fs w) (w_fs w')"
  using assms by (cases r) (auto dest!: syscall_Inl syscall_Inr)

lemma safe_create: "fs_create_dir_all p f = (r, f') \<Longrightarrow> safe_step E cfg f f'"
  by (rule safe_step_no_new) (rule keeps_outside_create no_new_create, assumption)+

lemma safe_remove_file: "prefix (components (cache_root cfg)) p \<Longrightarrow> fs_remove_file p f = (r, f') \<Longrightarrow> safe_step E cfg f f'"
  by (rule safe_step_no_new) (rule keeps_remove_below no_new_remove_file, assumption+)+

lemma safe_write:
  assumes "beside_store cfg p" "fs_write p b t f = (r, f')"
  shows "safe_step E cfg f f'"
proof -
  have "same_outside [p] f f'" using assms(2) by (auto simp: fs_write_def same_outside_def fs_lookup_put split: if_splits)
  then show ?thesis using safe_step_beside[of "[p]"] keeps_outside_same[of "[p]" f f' "[p]"] assms(1) by simp
qed

section \<open>Requests\<close>

lemma readyz_safe:
  assumes "readyz E' st w = (resp, w')" "as_cache_root st = cache_root cfg"
  shows "safe_step E cfg (w_fs w) (w_fs w')"
proof -
  let ?root = "cache_root cfg" and ?probe = "path_join (cache_root cfg) ''.readyz-probe''"
  have b: "beside_store cfg (components ?probe)"
    by (rule beside_storeI) (simp add: outside_store_def plain_name_def split_on_no_sep LFS_OBJECTS_DIR_def)
  obtain r1 w1 where c: "io_create_dir_all E' ?root w = (r1, w1)" by force
  obtain r2 w2 where d: "syscall E' (fs_write (components ?probe) [] (clock E' (w_tick w1))) w1 = (r2, w2)" by force
  obtain r3 w3 where e: "io_remove_file E' ?probe w2 = (r3, w3)" by force
  have s1: "safe_step E cfg (w_fs w) (w_fs w1)" using safe_syscall[OF c safe_create] .
  have s2: "safe_step E cfg (w_fs w) (w_fs w2)" using safe_step_trans[OF s1 safe_syscall[OF d safe_write[OF b]]] .
  have p: "prefix (components ?root) (components ?probe)" using b by (simp add: beside_store_def)
  have "safe_step E cfg (w_fs w) (w_fs w3)" using safe_step_trans[OF s2 safe_syscall[OF e safe_remove_file[OF p]]] .
  moreover have "w' \<in> {w1, w2, w3}"
    using assms c d e by (auto simp: readyz_def cache_writable_def Let_def io_ignore_def split: sum.splits prod.splits)
  ultimately show ?thesis using s1 s2 by auto
qed

lemma lfs_object_safe:
  assumes "lfs_object E L st repo oid query others w = (resp, w')" "valid_lfs_oid oid"
    "cache_root (as_lfs st) = as_cache_root st" "safe_step E (as_lfs st) (w_fs w) (w_fs (others (lfs_slot oid w)))"
  shows "safe_step E (as_lfs st) (w_fs w) (w_fs w')"
proof -
  obtain r w1 where e: "ensure_object E L (as_lfs st) repo oid (size_from_query query) others w = (r, w1)" by force
  have "store_sound E (as_lfs st) (w_fs w1)" if "store_sound E (as_lfs st) (w_fs w)"
    using ensure_object_sound[OF assms(2) that _ e] assms(4) that by (simp add: safe_step_def)
  moreover have "w_fs w' = w_fs w1"
    using assms(1) e by (auto simp: lfs_object_def Let_def split: sum.splits)
  ultimately show ?thesis
    using lfs_object_outside[OF assms(1-3)] assms(3,4) by (simp add: safe_step_def)
qed

lemma router_safe:
  assumes "git_confined E" "git_serves E" "cache_root (as_lfs st) = as_cache_root st"
    "\<And>oid. safe_step E (as_lfs st) (w_fs w) (w_fs (others (lfs_slot oid w)))"
  shows "safe_step E (as_lfs st) (w_fs w) (w_fs (snd (router E L st req others w)))"
proof -
  obtain r1 w1 where z: "readyz E st w = (r1, w1)" by force
  obtain r2 w2 where h: "handle_git E L st req others w = (r2, w2)" by force
  from h have "safe_step E (as_lfs st) (w_fs w) (w_fs w2)"
  proof (cases rule: handle_git_cases)
    case refs
    then show ?thesis using mirror_safe[OF info_refs_files[OF assms(1,2) refs], of "as_lfs st" E] assms(3) by simp
  next
    case (pack body)
    then show ?thesis using mirror_safe[OF upload_pack_files[OF assms(1,2) pack(1)], of "as_lfs st" E] assms(3) by simp
  next
    case (batch body)
    then show ?thesis using lfs_batch_files[OF batch] by simp
  next
    case (object repo oid query)
    have "valid_lfs_oid oid" using object(1) by (simp add: lfs_object_from_path_iff Let_def)
    then show ?thesis using lfs_object_safe[OF object(2) _ assms(3,4)] by blast
  qed simp
  moreover have "snd (router E L st req others w) \<in> {w, w1, w2}" using z h by (auto simp: router_def)
  ultimately show ?thesis using readyz_safe[OF z, of "as_lfs st" E] assms(3) by auto
qed

section \<open>The background task\<close>

lemma evict_victim_safe:
  assumes "plain_name k"
  shows "safe_step E cfg (w_fs w) (w_fs (evict_victim E' (k, path_join (cache_root cfg) k) w))"
proof (cases "is_lfs_blob k")
  case True
  let ?dir = "path_join (cache_root cfg) k"
  obtain r w1 where c: "io_remove_file E' ?dir w = (r, w1)" by force
  have p: "prefix (components (cache_root cfg)) (components ?dir)" using assms by (simp add: components_join)
  have "safe_step E cfg (w_fs w) (w_fs w1)" by (rule safe_syscall[OF c safe_remove_file[OF p]])
  then show ?thesis using True c by (auto simp: evict_victim_def split: sum.split io_error.split)
next
  case False
  let ?dir = "path_join (cache_root cfg) k"
  have o: "outside_store k" using False assms by (simp add: outside_store_def is_lfs_blob_def)
  obtain r w1 where c: "evict E' k ?dir w = (r, w1)" by force
  have "keeps_outside [components ?dir, components (trash_dir ?dir)] (w_fs w) (w_fs w1)"
    using evict_outside[OF c] by (rule keeps_outside_same) simp
  then have "safe_step E cfg (w_fs w) (w_fs w1)"
    using safe_step_beside[of "[components ?dir, components (trash_dir ?dir)]" "w_fs w" "w_fs w1" cfg E]
      beside_storeI[OF o, of cfg] suffixed_beside[OF o, of EVICTING_SUFFIX cfg]
    by (simp add: trash_dir_def reserved_suffix_def)
  then show ?thesis using False c by (auto simp: evict_victim_def split: sum.split)
qed

lemma evict_victims_safe:
  assumes "\<forall>k \<in> set (keys xs). plain_name k"
  shows "safe_step E cfg (w_fs w) (w_fs (fold (evict_victim E') (map (\<lambda>(k, _). (k, path_join (cache_root cfg) k)) xs) w))"
  using assms
proof (induction xs arbitrary: w)
  case (Cons x xs)
  then show ?case using safe_step_trans[OF evict_victim_safe[of "fst x"] Cons.IH] by (cases x) simp
qed simp

lemma keys_fold_overwrite [simp]: "keys (fold (\<lambda>(k, sz). overwrite k sz) ms xs) = keys xs"
  by (induction ms arbitrary: xs) auto

context lru_laws begin

lemma maintain_safe:
  assumes "index_named L (cache_root cfg) idx" "maintain E' L idx w = Some w'"
  shows "named L (cache_root cfg) (w_index w') \<and> safe_step E cfg (w_fs w) (w_fs w')"
proof -
  obtain idx1 w1 where m: "measure_dirty E' L idx w = (idx1, w1)" by force
  have ok: "index_ok L idx" using assms(1) by (simp add: index_named_def)
  note r = measure_dirty_refines[OF ok m]
  then have k1: "keys (entries_of L idx1) = keys (entries_of L idx)" by simp
  obtain out :: "(string \<times> u64) list" and idx2 calls where v: "take_victims L idx1 =
      Some (map (\<lambda>(k, _). (k, index_cache_dir idx1 k)) (rev out), idx2, calls)"
    "index_ok L idx2" "entries_of L idx1 = entries_of L idx2 @ out" "ci_root idx2 = ci_root idx1"
    using take_victims_refines[of idx1] r by blast
  have p: "\<forall>k \<in> set (keys (entries_of L idx2 @ out)). plain_name k"
    using assms(1) k1 unfolding v(3)[symmetric] index_named_def by simp
  have w': "w' = fold (evict_victim E') (map (\<lambda>(k, _). (k, path_join (cache_root cfg) k)) (rev out))
      (metric calls (w1\<lparr>w_index := Some idx2\<rparr>))"
    using assms v(1) m r by (simp add: maintain_def index_cache_dir_def index_named_def)
  have "safe_step E cfg (w_fs (metric calls (w1\<lparr>w_index := Some idx2\<rparr>))) (w_fs w')"
    unfolding w' by (rule evict_victims_safe) (use p in auto)
  moreover have "index_named L (cache_root cfg) idx2"
    using v(2,4) p r assms(1) by (simp add: index_named_def)
  ultimately show ?thesis using r by (simp add: w' named_def)
qed

lemma reconcile_safe:
  assumes "index_named L root idx"
  shows "\<exists>idx'. w_index (reconcile E' L idx w) = Some idx' \<and> index_named L root idx'"
    "w_fs (reconcile E' L idx w) = w_fs w"
proof -
  obtain idx' cs where r: "reconcile_missing L (w_fs w) (\<not> fault E' (w_tick w)) idx = (idx', cs)" by force
  then obtain ks where a: "reconcile_apply L ks idx = (idx', cs) \<or> idx' = idx"
    by (auto simp: reconcile_missing_def Let_def split: if_splits)
  have "index_step L (ReconcileApply ks) idx = Some (reconcile_apply L ks idx)" by simp
  then have "index_named L root idx'" using step_named[of "ReconcileApply ks", OF _ assms] a assms by auto
  then show "\<exists>idx'. w_index (reconcile E' L idx w) = Some idx' \<and> index_named L root idx'" using r by (simp add: reconcile_def)
  show "w_fs (reconcile E' L idx w) = w_fs w" using r by (simp add: reconcile_def)
qed

lemma wake_safe:
  assumes "named L (cache_root cfg) (w_index w)" "wake E' L tick w = Some w'"
  shows "named L (cache_root cfg) (w_index w') \<and> safe_step E cfg (w_fs w) (w_fs w')"
proof (cases "w_index w")
  case None
  then show ?thesis using assms by (simp add: wake_def)
next
  case (Some idx)
  have n: "index_named L (cache_root cfg) idx" using assms(1) Some by (simp add: named_def)
  obtain idx1 where r: "w_index (reconcile E' L idx w) = Some idx1" "index_named L (cache_root cfg) idx1"
    using reconcile_safe(1)[OF n] by blast
  have k: "index_named L (cache_root cfg) (idx\<lparr>ci_work := False\<rparr>)" using n by (simp add: index_named_def index_ok_def)
  show ?thesis
    using assms Some maintain_safe[OF r(2), of E' "reconcile E' L idx w" w' E] r(1) reconcile_safe(2)[OF n, of E' w]
      maintain_safe[OF k, of E' "w\<lparr>w_index := Some (idx\<lparr>ci_work := False\<rparr>)\<rparr>" w' E]
    by (auto simp: wake_def Let_def split: if_splits)
qed

end

section \<open>The life of the process\<close>

text \<open>
  What another task can be seen to do while one waits: nothing, serve a request (itself beside other activities),
  take a turn of the maintenance loop, or several of these.
\<close>

inductive activity ::
  "('e) srv_env_scheme \<Rightarrow> 'l lru_ops \<Rightarrow> AppState \<Rightarrow> (('l, 'z) lfs_world_scheme \<Rightarrow> ('l, 'z) lfs_world_scheme) \<Rightarrow> bool"
  for E :: "('e) srv_env_scheme" and L :: "'l lru_ops" and st :: AppState where
  idle: "activity E L st (\<lambda>w. w)"
| serving: "activity E L st others \<Longrightarrow> activity E L st (\<lambda>w. snd (router E L st req others w))"
| turn: "activity E L st (\<lambda>w. case wake E L tick w of None \<Rightarrow> w | Some w' \<Rightarrow> w')"
| both: "activity E L st f \<Longrightarrow> activity E L st g \<Longrightarrow> activity E L st (\<lambda>w. g (f w))"

text \<open>The world, seen from the files \<open>f0\<close> it started with.\<close>

definition safe_world :: "('e) lfs_env_scheme \<Rightarrow> 'l lru_ops \<Rightarrow> LfsConfig \<Rightarrow> fs \<Rightarrow> ('l, 'z) cache_world_scheme \<Rightarrow> bool" where
  "safe_world E L cfg f0 w \<longleftrightarrow> named L (cache_root cfg) (w_index w) \<and> safe_step E cfg f0 (w_fs w)"

lemma safe_world_step:
  "safe_world E L cfg f0 w \<Longrightarrow> named L (cache_root cfg) (w_index w') \<Longrightarrow> safe_step E cfg (w_fs w) (w_fs w') \<Longrightarrow>
     safe_world E L cfg f0 w'"
  unfolding safe_world_def using safe_step_trans by blast

context lru_laws begin

lemma activity_safe:
  assumes "activity E L st f" "git_confined E" "git_serves E" "cache_root (as_lfs st) = as_cache_root st"
    "named L (as_cache_root st) (w_index w)"
  shows "named L (as_cache_root st) (w_index (f w)) \<and> safe_step E (as_lfs st) (w_fs w) (w_fs (f w))"
  using assms(1,5)
proof (induction arbitrary: w)
  case (serving others req)
  have s: "w_index (lfs_slot oid w) = w_index w" for oid by (simp add: lfs_slot_def)
  have "named L (as_cache_root st) (w_index (snd (router E L st req others w)))"
  proof -
    have "keeps_index (named L (as_cache_root st)) u (others u)" for u using serving.IH by (simp add: keeps_index_def)
    then have "keeps_index (named L (as_cache_root st)) w (snd (router E L st req others w))"
      by (rule named_requests.router_frame)
    then show ?thesis using serving.prems by (simp add: keeps_index_def)
  qed
  moreover have "safe_step E (as_lfs st) (w_fs w) (w_fs (others (lfs_slot oid w)))" for oid
    using serving.IH[of "lfs_slot oid w"] serving.prems s by simp
  ultimately show ?case using router_safe[OF assms(2-4)] by blast
next
  case (turn tick)
  then show ?case using wake_safe[of "as_lfs st" w E tick _ E] assms(4) by (auto split: option.split)
next
  case (both f g)
  then show ?case using safe_step_trans by blast
qed simp

lemma activity_relied: "activity E L st f \<Longrightarrow> rely L f"
proof (induction rule: activity.induct)
  case (serving others req)
  show ?case using serving.IH by (rule router_relied)
next
  case (turn tick)
  show ?case
    unfolding rely_def
  proof (intro allI impI)
    fix w idx assume "w_index w = Some idx" "calm L idx"
    from wake_quiet[OF this, of E tick]
    show "\<exists>idx'. w_index (case wake E L tick w of None \<Rightarrow> w | Some w' \<Rightarrow> w') = Some idx' \<and> calm L idx'" by auto
  qed
next
  case (both f g)
  then show ?case unfolding rely_iff by (blast intro: keeps_index_trans)
qed (simp add: rely_def)

end

lemma entry_below:
  assumes "plain_name k" "ci_root idx = root"
  shows "strict_prefix (components root) (components (index_cache_dir idx k))"
  using assms by (simp add: index_cache_dir_def components_join strict_prefix_def)

section \<open>Start-up and the requests of a day\<close>

lemma startup_safe:
  assumes "startup E L listen cfg w = (r, w')"
  shows "safe_step E' (lfs_config cfg) (w_fs w) (w_fs w')"
proof -
  let ?cfg = "lfs_config cfg" and ?incoming = "lfs_incoming (lfs_config cfg)"
  obtain r1 w1 where c: "io_create_dir_all E (cf_cache_root cfg) w = (r1, w1)" by force
  let ?w3 = "fresh_caches (build_index L cfg (metric (set_config (cache_max_bytes cfg) (cf_fetch_ttl_seconds cfg)) w1))"
  obtain r4 w4 where d: "io_remove_dir_all E ?incoming ?w3 = (r4, w4)" by force
  have f3: "w_fs ?w3 = w_fs w1" by (auto simp: fresh_caches_def build_index_def split: prod.split)
  have s1: "safe_step E' ?cfg (w_fs w) (w_fs w1)" using safe_syscall[OF c safe_create] .
  have "INCOMING_DIR \<noteq> take 2 oid" for oid
  proof
    assume "INCOMING_DIR = take 2 oid"
    then have "length (take 2 oid) = length INCOMING_DIR" by simp
    then show False by (simp add: INCOMING_DIR_def)
  qed
  then have "beside_store ?cfg (components ?incoming)"
    by (simp add: beside_store_def components_incoming object_path_def)
  then have "safe_step E' ?cfg (w_fs ?w3) (w_fs w4)"
    by (intro safe_step_beside[OF keeps_outside_same[OF same_outside_io_remove_dir_all[OF d] subset_refl]]) simp
  then have "safe_step E' ?cfg (w_fs w) (w_fs w4)" using safe_step_trans[OF s1] f3 by simp
  moreover have "w' = w1 \<or> w' = w4"
    using assms c d by (cases r1) (auto simp: startup_def io_context_def io_ignore_def split: sum.splits)
  ultimately show ?thesis using s1 by blast
qed

lemma startup_named:
  assumes "lru_laws L" "names_ok (w_fs w) (components (cf_cache_root cfg))" "startup E L listen cfg w = (Inr st, w')"
  shows "named L (cf_cache_root cfg) (w_index w')"
  using assms(3)
proof (rule startup_Inr)
  fix f1 assume f: "fs_create_dir_all (components (cf_cache_root cfg)) (w_fs w) = (Inr (), f1)"
    and i: "w_index w' = (if cf_cache_max_mb cfg > 0
       then Some (fst (CacheIndex_new L f1 (cf_cache_root cfg) (cache_max_bytes cfg))) else None)"
  note ok = names_ok_create[OF assms(2) f]
  note new = index_new_calm[OF assms(1) ok prod.collapse[symmetric], of "cache_max_bytes cfg"]
  then show ?thesis
    using i startup_names_plain[OF ok] by (auto simp: named_def index_named_def calm_def)
qed

lemma day_activities:
  assumes "list_all (\<lambda>(_, others, _). activity E L st others) reqs"
  shows "\<forall>(others, _) \<in> set (day E L st ended reqs). activity E L st others"
  using assms by (auto simp: day_def list_all_iff intro: activity.intros split: sum.split)

context lru_laws begin

lemma main_safe:
  assumes "git_confined E" "git_serves E" "names_ok (w_fs w) (components (cf_cache_root cfg))"
    "list_all (\<lambda>(_, others, _). activity E L (app_state cfg) others) reqs"
    "main_until E L listen ended reqs cfg w = Some (r, w')"
  shows "safe_step E (lfs_config cfg) (w_fs w) (w_fs w')"
    "startup E L listen cfg w = (Inr st, w1) \<Longrightarrow> named L (cf_cache_root cfg) (w_index w')"
proof -
  obtain r0 w0 where s: "startup E L listen cfg w = (r0, w0)" by force
  note s0 = startup_safe[OF s, of E]
  let ?I = "\<lambda>u. named L (cf_cache_root cfg) (w_index u) \<and> safe_step E (lfs_config cfg) (w_fs w) (w_fs u)"
  let ?day = "day E L (app_state cfg) ended reqs"
  have others: "\<forall>(others, _) \<in> set ?day. \<forall>u. ?I u \<longrightarrow> ?I (others u)"
    using day_activities[OF assms(4), of ended] activity_safe[OF _ assms(1,2), of "app_state cfg"] safe_step_trans
    by (fastforce simp: app_state_fields)
  have ends: "?I w'" if st: "r0 = Inr st" for st
  proof -
    have i0: "?I w0" using startup_named[OF lru_laws_axioms assms(3)] s s0 st by simp
    have st': "st = app_state cfg" using s st by (auto elim: startup_Inr)
    have turns: "?I u \<Longrightarrow> wake E L tick u = Some u' \<Longrightarrow> ?I u'" for tick u u'
      using wake_safe[of "lfs_config cfg" u E tick u' E] safe_step_trans by (auto simp: app_state_fields)
    show ?thesis
    proof (cases "w_index w0")
      case None
      have "?I (fold (\<lambda>(others, _). others) xs u)" if "?I u" "set xs \<subseteq> set ?day" for xs u
        using that others by (induction xs arbitrary: u) auto
      from this[OF i0 subset_refl] show ?thesis using None assms(5) s st st' by (simp add: main_until_def)
    next
      case (Some idx)
      obtain b w2 where run: "maintain E L idx w0 = Some w2" "run_wait E L ?day w2 = Some (b, w')"
        using Some assms(5) s st st' by (auto simp: main_until_def run_def split: option.splits)
      have "index_named L (cache_root (lfs_config cfg)) idx" using i0 Some by (simp add: named_def app_state_fields)
      then have "?I w2"
        using maintain_safe[OF _ run(1), of "lfs_config cfg" E] i0 safe_step_trans by (auto simp: app_state_fields)
      then show ?thesis by (rule run_wait_invariant[OF run(2) _ others turns])
    qed
  qed
  show "safe_step E (lfs_config cfg) (w_fs w) (w_fs w')"
    using ends s0 s assms(5) by (cases r0) (auto simp: main_until_def)
  show "named L (cf_cache_root cfg) (w_index w')" if "startup E L listen cfg w = (Inr st, w1)"
    using ends[of st] s that by auto
qed

end

end
